theory Spec2Isabelle
  imports Complex_Main "HOL-Library.Monad_Syntax"
begin

unbundle bit_operations_syntax

section \<open>The register client\<close>

text \<open>
  The driver talks to the device through a pymodbus client. What a call on the client
  returns is an object: either one with a \<open>registers\<close> attribute (a list of Python
  integers), or one without it (a write acknowledgement, a \<open>ModbusIOException\<close>, an
  exception response). Reading \<open>.registers\<close> on the latter raises
  \<open>AttributeError\<close>; the string is the text of that error.
\<close>

datatype reply = Registers "int list" | NoRegisters string

text \<open>The calls the driver issues on the client: address, payload, slave id.\<close>

datatype call =
    ReadHolding nat nat nat
  | WriteRegister nat int nat
  | WriteRegisters nat "int list" nat

text \<open>
  The client is modelled by the replies it is going to give (\<open>script c k\<close> is the
  reply to the call issued after \<open>k\<close> earlier calls), the calls issued so far, oldest
  first, and the lines printed on standard output.
\<close>

record client =
  script :: "nat \<Rightarrow> reply"
  calls :: "call list"
  stdout :: "string list"

definition read_holding_registers :: "client \<Rightarrow> nat \<Rightarrow> nat \<Rightarrow> nat \<Rightarrow> reply \<times> client" where
  "read_holding_registers c addr cnt slave =
     (script c (length (calls c)), c\<lparr>calls := calls c @ [ReadHolding addr cnt slave]\<rparr>)"

definition write_register :: "client \<Rightarrow> nat \<Rightarrow> int \<Rightarrow> nat \<Rightarrow> reply \<times> client" where
  "write_register c addr v slave =
     (script c (length (calls c)), c\<lparr>calls := calls c @ [WriteRegister addr v slave]\<rparr>)"

definition write_registers :: "client \<Rightarrow> nat \<Rightarrow> int list \<Rightarrow> nat \<Rightarrow> reply \<times> client" where
  "write_registers c addr vs slave =
     (script c (length (calls c)), c\<lparr>calls := calls c @ [WriteRegisters addr vs slave]\<rparr>)"

definition print :: "client \<Rightarrow> string \<Rightarrow> client" where
  "print c s = c\<lparr>stdout := stdout c @ [s]\<rparr>"

text \<open>The Python exceptions that the driver's own statements can raise.\<close>

datatype py_error =
    AttributeError string | IndexError | OverflowError | ZeroDivisionError | ValueError

section \<open>The controller: configuration and register map\<close>

record controller =
  ID :: nat
  R_Wheel :: real

definition CONTROL_REG :: nat where "CONTROL_REG = 0x200E"
definition OPR_MODE :: nat where "OPR_MODE = 0x200D"
definition L_ACL_TIME :: nat where "L_ACL_TIME = 0x2080"
definition L_DCL_TIME :: nat where "L_DCL_TIME = 0x2082"
definition L_CMD_RPM :: nat where "L_CMD_RPM = 0x2088"
definition L_FB_RPM :: nat where "L_FB_RPM = 0x20AB"
definition L_CMD_REL_POS_HI :: nat where "L_CMD_REL_POS_HI = 0x208A"
definition L_FB_POS_HI :: nat where "L_FB_POS_HI = 0x20A7"
definition L_FAULT :: nat where "L_FAULT = 0x20A5"

definition NO_FAULT :: int where "NO_FAULT = 0x0000"
definition OVER_VOLT :: int where "OVER_VOLT = 0x0001"
definition UNDER_VOLT :: int where "UNDER_VOLT = 0x0002"
definition OVER_CURR :: int where "OVER_CURR = 0x0004"
definition OVER_LOAD :: int where "OVER_LOAD = 0x0008"
definition CURR_OUT_TOL :: int where "CURR_OUT_TOL = 0x0010"
definition ENCOD_OUT_TOL :: int where "ENCOD_OUT_TOL = 0x0020"
definition MOTOR_BAD :: int where "MOTOR_BAD = 0x0040"
definition REF_VOLT_ERROR :: int where "REF_VOLT_ERROR = 0x0080"
definition EEPROM_ERROR :: int where "EEPROM_ERROR = 0x0100"
definition WALL_ERROR :: int where "WALL_ERROR = 0x0200"
definition HIGH_TEMP :: int where "HIGH_TEMP = 0x0400"

definition FAULT_LIST :: "int list" where
  "FAULT_LIST =
     [OVER_VOLT, UNDER_VOLT, OVER_CURR, OVER_LOAD, CURR_OUT_TOL, ENCOD_OUT_TOL,
      MOTOR_BAD, REF_VOLT_ERROR, EEPROM_ERROR, WALL_ERROR, HIGH_TEMP]"

definition travel_in_one_rev :: "controller \<Rightarrow> real" where
  "travel_in_one_rev ctl = 2 * pi * R_Wheel ctl"

definition cpr :: int where "cpr = 16384"

section \<open>Numbers\<close>

text \<open>
  Where the driver only compares, clips and truncates a number (the time and rpm
  setpoints), a Python \<open>int\<close> or finite \<open>float\<close> is modelled by the \<open>real\<close> it
  denotes: comparison, \<open>np.clip\<close> and \<open>int()\<close> are exact on these. The formulas
  that only produce a float for the caller (\<open>rpm_to_linear\<close>, the odometry) are
  modelled as exact real arithmetic, without the rounding of double precision. The
  arithmetic of \<open>map\<close>, whose result is truncated to the integer that is written to the
  device, is modelled in double precision (see below).

  \<open>int(x)\<close> truncates towards zero. \<open>np.int16\<close> and \<open>np.int32\<close> are modelled as
  the wrapping cast to the width (NumPy 1.x), which is what the driver relies on to read
  an unsigned register word as a signed quantity.
\<close>

definition py_int :: "real \<Rightarrow> int" where
  "py_int x = (if x < 0 then \<lceil>x\<rceil> else \<lfloor>x\<rfloor>)"

definition np_clip :: "real \<Rightarrow> real \<Rightarrow> real \<Rightarrow> real" where
  "np_clip x a_min a_max = min (max x a_min) a_max"

definition np_int16 :: "int \<Rightarrow> int" where
  "np_int16 x = signed_take_bit 15 x"

definition np_int32 :: "int \<Rightarrow> int" where
  "np_int32 x = signed_take_bit 31 x"

subsection \<open>Double precision\<close>

text \<open>
  \<open>round_double\<close> rounds a real to the nearest double (53-bit significand, ties to the
  even significand, gradual underflow below \<open>2\<^sup>-\<^sup>1\<^sup>0\<^sup>2\<^sup>2\<close>), without an upper limit on the
  exponent; \<open>fround\<close> adds the limit: a real of magnitude \<open>2\<^sup>1\<^sup>0\<^sup>2\<^sup>4 - 2\<^sup>9\<^sup>7\<^sup>0\<close> or more
  rounds to an infinity. The sign of zero is not modelled.
\<close>

definition rne :: "real \<Rightarrow> int" where
  "rne y =
     (let f = \<lfloor>y\<rfloor>
      in if y - of_int f < 1 / 2 then f
         else if 1 / 2 < y - of_int f then f + 1
         else if even f then f else f + 1)"

definition double_exponent :: "real \<Rightarrow> int" where
  "double_exponent x = max \<lfloor>log 2 \<bar>x\<bar>\<rfloor> (- 1022)"

definition double_ulp :: "real \<Rightarrow> real" where
  "double_ulp x = 2 powr of_int (double_exponent x - 52)"

definition round_double :: "real \<Rightarrow> real" where
  "round_double x = (if x = 0 then 0 else of_int (rne (x / double_ulp x)) * double_ulp x)"

datatype pyfloat = Fin real | PosInf | NegInf | NaN

definition double_overflow :: real where
  "double_overflow = 2 ^ 1024 - 2 ^ 970"

definition fround :: "real \<Rightarrow> pyfloat" where
  "fround x =
     (if double_overflow \<le> x then PosInf
      else if x \<le> - double_overflow then NegInf
      else Fin (round_double x))"

fun fneg :: "pyfloat \<Rightarrow> pyfloat" where
  "fneg (Fin x) = Fin (- x)"
| "fneg PosInf = NegInf"
| "fneg NegInf = PosInf"
| "fneg NaN = NaN"

fun fadd :: "pyfloat \<Rightarrow> pyfloat \<Rightarrow> pyfloat" where
  "fadd (Fin x) (Fin y) = fround (x + y)"
| "fadd NaN b = NaN"
| "fadd a NaN = NaN"
| "fadd PosInf NegInf = NaN"
| "fadd NegInf PosInf = NaN"
| "fadd PosInf b = PosInf"
| "fadd NegInf b = NegInf"
| "fadd a PosInf = PosInf"
| "fadd a NegInf = NegInf"

definition fsub :: "pyfloat \<Rightarrow> pyfloat \<Rightarrow> pyfloat" where
  "fsub a b = fadd a (fneg b)"

definition inf_times :: "pyfloat \<Rightarrow> real \<Rightarrow> pyfloat" where
  "inf_times i y = (if y = 0 then NaN else if 0 < y then i else fneg i)"

fun fmul :: "pyfloat \<Rightarrow> pyfloat \<Rightarrow> pyfloat" where
  "fmul (Fin x) (Fin y) = fround (x * y)"
| "fmul NaN b = NaN"
| "fmul a NaN = NaN"
| "fmul PosInf (Fin y) = inf_times PosInf y"
| "fmul NegInf (Fin y) = inf_times NegInf y"
| "fmul (Fin x) PosInf = inf_times PosInf x"
| "fmul (Fin x) NegInf = inf_times NegInf x"
| "fmul PosInf PosInf = PosInf"
| "fmul NegInf NegInf = PosInf"
| "fmul PosInf NegInf = NegInf"
| "fmul NegInf PosInf = NegInf"

text \<open>The quotient of two floats when the divisor is not zero.\<close>

fun fdiv :: "pyfloat \<Rightarrow> pyfloat \<Rightarrow> pyfloat" where
  "fdiv (Fin x) (Fin y) = fround (x / y)"
| "fdiv NaN b = NaN"
| "fdiv a NaN = NaN"
| "fdiv (Fin x) PosInf = Fin 0"
| "fdiv (Fin x) NegInf = Fin 0"
| "fdiv PosInf (Fin y) = (if 0 < y then PosInf else NegInf)"
| "fdiv NegInf (Fin y) = (if 0 < y then NegInf else PosInf)"
| "fdiv a b = NaN"

subsection \<open>Python numbers and their arithmetic\<close>

text \<open>
  A Python number is an \<open>int\<close> (unbounded) or a \<open>float\<close>. An operation on two ints is
  exact, except that true division gives the correctly rounded float and raises
  \<open>OverflowError\<close> when that is too large. In every other case both operands are
  converted to float (an int too large for a float raises \<open>OverflowError\<close>) and the
  float operation is applied; a float division by zero raises \<open>ZeroDivisionError\<close>.
\<close>

datatype pynum = PyInt int | PyFloat pyfloat

fun num_value :: "pynum \<Rightarrow> real option" where
  "num_value (PyInt n) = Some (of_int n)"
| "num_value (PyFloat (Fin x)) = Some x"
| "num_value (PyFloat f) = None"

definition float_of_int :: "int \<Rightarrow> py_error + pyfloat" where
  "float_of_int n = (case fround (of_int n) of Fin y \<Rightarrow> Inr (Fin y) | _ \<Rightarrow> Inl OverflowError)"

fun to_float :: "pynum \<Rightarrow> py_error + pyfloat" where
  "to_float (PyInt n) = float_of_int n"
| "to_float (PyFloat f) = Inr f"

definition float_op ::
  "(pyfloat \<Rightarrow> pyfloat \<Rightarrow> py_error + pyfloat) \<Rightarrow> pynum \<Rightarrow> pynum \<Rightarrow> py_error + pynum" where
  "float_op f a b =
     (case to_float a of
        Inl e \<Rightarrow> Inl e
      | Inr x \<Rightarrow>
          (case to_float b of
             Inl e \<Rightarrow> Inl e
           | Inr y \<Rightarrow> (case f x y of Inl e \<Rightarrow> Inl e | Inr z \<Rightarrow> Inr (PyFloat z))))"

fun py_add :: "pynum \<Rightarrow> pynum \<Rightarrow> py_error + pynum" where
  "py_add (PyInt m) (PyInt n) = Inr (PyInt (m + n))"
| "py_add a b = float_op (\<lambda>x y. Inr (fadd x y)) a b"

fun py_sub :: "pynum \<Rightarrow> pynum \<Rightarrow> py_error + pynum" where
  "py_sub (PyInt m) (PyInt n) = Inr (PyInt (m - n))"
| "py_sub a b = float_op (\<lambda>x y. Inr (fsub x y)) a b"

fun py_mul :: "pynum \<Rightarrow> pynum \<Rightarrow> py_error + pynum" where
  "py_mul (PyInt m) (PyInt n) = Inr (PyInt (m * n))"
| "py_mul a b = float_op (\<lambda>x y. Inr (fmul x y)) a b"

fun py_truediv :: "pynum \<Rightarrow> pynum \<Rightarrow> py_error + pynum" where
  "py_truediv (PyInt m) (PyInt n) =
     (if n = 0 then Inl ZeroDivisionError
      else (case fround (of_int m / of_int n) of
              Fin q \<Rightarrow> Inr (PyFloat (Fin q))
            | _ \<Rightarrow> Inl OverflowError))"
| "py_truediv a b =
     float_op (\<lambda>x y. if y = Fin 0 then Inl ZeroDivisionError else Inr (fdiv x y)) a b"

text \<open>\<open>int(x)\<close> on a Python number.\<close>

fun py_int_of :: "pynum \<Rightarrow> py_error + int" where
  "py_int_of (PyInt n) = Inr n"
| "py_int_of (PyFloat (Fin x)) = Inr (py_int x)"
| "py_int_of (PyFloat NaN) = Inl ValueError"
| "py_int_of (PyFloat f) = Inl OverflowError"

section \<open>Reading with retry\<close>

text \<open>
  \<open>modbus_fail_read_handler\<close> loops until a reply has a \<open>registers\<close> attribute.
  The loop has no bound, so the model is a partial function: \<open>None\<close> is the loop that
  never ends. A reply whose list is shorter than \<open>WORD\<close> raises \<open>IndexError\<close>,
  which the handler does not catch. With \<open>WORD = 0\<close> the attribute is never read.
\<close>

partial_function (option) modbus_fail_read_handler ::
  "client \<Rightarrow> nat \<Rightarrow> nat \<Rightarrow> nat \<Rightarrow> ((py_error + int list) \<times> client) option" where
  "modbus_fail_read_handler c ADDR WORD slave =
     (case read_holding_registers c ADDR WORD slave of (result, c1) \<Rightarrow>
        if WORD = 0 then Some (Inr [], c1)
        else (case result of
          Registers regs \<Rightarrow>
            if length regs < WORD then Some (Inl IndexError, c1)
            else Some (Inr (take WORD regs), c1)
        | NoRegisters e \<Rightarrow> modbus_fail_read_handler (print c1 e) ADDR WORD slave))"

section \<open>Unit conversion\<close>

definition rpm_to_linear :: "controller \<Rightarrow> real \<Rightarrow> real" where
  "rpm_to_linear ctl rpm = rpm * 2 * pi / 60 * R_Wheel ctl"

definition to_int16 :: "real \<Rightarrow> int" where
  "to_int16 val = 0xFFFF AND py_int val"

text \<open>\<open>map\<close>, evaluated left to right as Python does.\<close>

definition map_lin :: "pynum \<Rightarrow> pynum \<Rightarrow> pynum \<Rightarrow> pynum \<Rightarrow> pynum \<Rightarrow> py_error + pynum" where
  "map_lin val in_min in_max out_min out_max =
     (case py_sub val in_min of Inl e \<Rightarrow> Inl e | Inr a \<Rightarrow>
     (case py_sub out_max out_min of Inl e \<Rightarrow> Inl e | Inr b \<Rightarrow>
     (case py_mul a b of Inl e \<Rightarrow> Inl e | Inr c \<Rightarrow>
     (case py_sub in_max in_min of Inl e \<Rightarrow> Inl e | Inr d \<Rightarrow>
     (case py_truediv c d of Inl e \<Rightarrow> Inl e | Inr q \<Rightarrow>
        py_add q out_min)))))"

text \<open>The integer \<open>dec\<close> of \<open>deg_to_32bitArray\<close>.\<close>

definition deg_to_dec :: "pynum \<Rightarrow> py_error + int" where
  "deg_to_dec deg =
     (case map_lin deg (PyInt (- 1440)) (PyInt 1440) (PyInt (- 65536)) (PyInt 65536) of
        Inl e \<Rightarrow> Inl e
      | Inr v \<Rightarrow> py_int_of v)"

definition deg_to_32bitArray :: "pynum \<Rightarrow> py_error + int list" where
  "deg_to_32bitArray deg =
     (case deg_to_dec deg of
        Inl e \<Rightarrow> Inl e
      | Inr dec \<Rightarrow>
          (let HI_WORD = drop_bit 16 (dec AND 0xFFFF0000);
               LO_WORD = dec AND 0x0000FFFF
           in Inr [HI_WORD, LO_WORD]))"

text \<open>The expression that \<open>get_wheels_travelled\<close> and \<open>get_wheels_tick\<close> apply to
  the high and low word of each axis.\<close>

definition pulse32 :: "int \<Rightarrow> int \<Rightarrow> int" where
  "pulse32 pul_hi pul_lo = np_int32 (push_bit 16 (pul_hi AND 0xFFFF) OR (pul_lo AND 0xFFFF))"

section \<open>The operations of the controller\<close>

definition set_mode :: "controller \<Rightarrow> client \<Rightarrow> int \<Rightarrow> (int + reply) \<times> client" where
  "set_mode ctl c MODE =
     (case (if MODE = 1 then Inr (print c ''Set relative position control'')
            else if MODE = 2 then Inr (print c ''Set absolute position control'')
            else if MODE = 3 then Inr (print c ''Set speed rpm control'')
            else Inl (print c ''set_mode ERROR: set only 1, 2, or 3''))
      of Inl c1 \<Rightarrow> (Inl 0, c1)
       | Inr c1 \<Rightarrow>
           (case write_register c1 OPR_MODE MODE (ID ctl) of (r, c2) \<Rightarrow> (Inr r, c2)))"

definition get_mode :: "controller \<Rightarrow> client \<Rightarrow> ((py_error + int) \<times> client) option" where
  "get_mode ctl c =
     do {
       (res, c1) \<leftarrow> modbus_fail_read_handler c OPR_MODE 1 (ID ctl);
       Some (case res of
               Inl e \<Rightarrow> (Inl e, c1)
             | Inr registers \<Rightarrow> (Inr (registers ! 0), c1))
     }"

definition get_fault_code ::
  "controller \<Rightarrow> client \<Rightarrow> (py_error + ((bool \<times> int) \<times> (bool \<times> int))) \<times> client" where
  "get_fault_code ctl c =
     (case read_holding_registers c L_FAULT 2 (ID ctl) of (fault_codes, c1) \<Rightarrow>
        (case fault_codes of
           NoRegisters e \<Rightarrow> (Inl (AttributeError e), c1)
         | Registers regs \<Rightarrow>
             if length regs < 2 then (Inl IndexError, c1)
             else
               (let L_fault_code = regs ! 0;
                    R_fault_code = regs ! 1;
                    L_fault_flag = List.member FAULT_LIST L_fault_code;
                    R_fault_flag = List.member FAULT_LIST R_fault_code
                in (Inr ((L_fault_flag, L_fault_code), (R_fault_flag, R_fault_code)), c1))))"

definition set_accel_time :: "controller \<Rightarrow> client \<Rightarrow> real \<Rightarrow> real \<Rightarrow> reply \<times> client" where
  "set_accel_time ctl c L_ms R_ms =
     (let L_ms = (if L_ms > 32767 then 32767 else if L_ms < 0 then 0 else L_ms);
          R_ms = (if R_ms > 32767 then 32767 else if R_ms < 0 then 0 else R_ms)
      in write_registers c L_ACL_TIME [py_int L_ms, py_int R_ms] (ID ctl))"

definition set_decel_time :: "controller \<Rightarrow> client \<Rightarrow> real \<Rightarrow> real \<Rightarrow> reply \<times> client" where
  "set_decel_time ctl c L_ms R_ms =
     (let L_ms = (if L_ms > 32767 then 32767 else if L_ms < 0 then 0 else L_ms);
          R_ms = (if R_ms > 32767 then 32767 else if R_ms < 0 then 0 else R_ms)
      in write_registers c L_DCL_TIME [py_int L_ms, py_int R_ms] (ID ctl))"

definition set_rpm :: "controller \<Rightarrow> client \<Rightarrow> real \<Rightarrow> real \<Rightarrow> reply \<times> client" where
  "set_rpm ctl c L_rpm R_rpm =
     (let left_bytes = to_int16 (np_clip L_rpm (- 3000) 3000);
          right_bytes = to_int16 (np_clip R_rpm (- 3000) 3000)
      in write_registers c L_CMD_RPM [left_bytes, right_bytes] (ID ctl))"

definition get_rpm :: "controller \<Rightarrow> client \<Rightarrow> ((py_error + real \<times> real) \<times> client) option" where
  "get_rpm ctl c =
     do {
       (res, c1) \<leftarrow> modbus_fail_read_handler c L_FB_RPM 2 (ID ctl);
       Some (case res of
               Inl e \<Rightarrow> (Inl e, c1)
             | Inr registers \<Rightarrow>
                 let fb_L_rpm = real_of_int (np_int16 (registers ! 0)) / 10;
                     fb_R_rpm = real_of_int (np_int16 (registers ! 1)) / 10
                 in (Inr (fb_L_rpm, fb_R_rpm), c1))
     }"

definition get_linear_velocities ::
  "controller \<Rightarrow> client \<Rightarrow> ((py_error + real \<times> real) \<times> client) option" where
  "get_linear_velocities ctl c =
     do {
       (res, c1) \<leftarrow> get_rpm ctl c;
       Some (case res of
               Inl e \<Rightarrow> (Inl e, c1)
             | Inr (rpmL, rpmR) \<Rightarrow>
                 let VL = rpm_to_linear ctl rpmL;
                     VR = rpm_to_linear ctl (- rpmR)
                 in (Inr (VL, VR), c1))
     }"

definition set_relative_angle ::
  "controller \<Rightarrow> client \<Rightarrow> pynum \<Rightarrow> pynum \<Rightarrow> (py_error + reply) \<times> client" where
  "set_relative_angle ctl c ang_L ang_R =
     (case deg_to_32bitArray ang_L of
        Inl e \<Rightarrow> (Inl e, c)
      | Inr L_array \<Rightarrow>
          (case deg_to_32bitArray ang_R of
             Inl e \<Rightarrow> (Inl e, c)
           | Inr R_array \<Rightarrow>
               (let all_cmds_array = L_array @ R_array
                in case write_registers c L_CMD_REL_POS_HI all_cmds_array (ID ctl) of
                     (r, c1) \<Rightarrow> (Inr r, c1))))"

definition get_wheels_travelled ::
  "controller \<Rightarrow> client \<Rightarrow> ((py_error + real \<times> real) \<times> client) option" where
  "get_wheels_travelled ctl c =
     do {
       (res, c1) \<leftarrow> modbus_fail_read_handler c L_FB_POS_HI 4 (ID ctl);
       Some (case res of
               Inl e \<Rightarrow> (Inl e, c1)
             | Inr registers \<Rightarrow>
                 let l_pulse = pulse32 (registers ! 0) (registers ! 1);
                     r_pulse = pulse32 (registers ! 2) (registers ! 3);
                     l_travelled = (real_of_int l_pulse / real_of_int cpr) * travel_in_one_rev ctl;
                     r_travelled = (real_of_int r_pulse / real_of_int cpr) * travel_in_one_rev ctl
                 in (Inr (l_travelled, r_travelled), c1))
     }"

definition get_wheels_tick ::
  "controller \<Rightarrow> client \<Rightarrow> ((py_error + int \<times> int) \<times> client) option" where
  "get_wheels_tick ctl c =
     do {
       (res, c1) \<leftarrow> modbus_fail_read_handler c L_FB_POS_HI 4 (ID ctl);
       Some (case res of
               Inl e \<Rightarrow> (Inl e, c1)
             | Inr registers \<Rightarrow>
                 let l_tick = pulse32 (registers ! 0) (registers ! 1);
                     r_tick = pulse32 (registers ! 2) (registers ! 3)
                 in (Inr (l_tick, r_tick), c1))
     }"

text \<open>A client stub for concrete runs: no call issued yet, every call answered with
  \<open>r\<close>.\<close>

definition stub_client :: "reply \<Rightarrow> client" where
  "stub_client r = \<lparr>script = (\<lambda>k. r), calls = [], stdout = []\<rparr>"

section \<open>Reading with retry: what the loop does\<close>

text \<open>One turn of the loop on a reply that has its registers, and on one that has none.\<close>

lemma handler_good:
  assumes "script c (length (calls c)) = Registers regs" "WORD \<le> length regs" "0 < WORD"
  shows "modbus_fail_read_handler c ADDR WORD slave =
           Some (Inr (take WORD regs), c\<lparr>calls := calls c @ [ReadHolding ADDR WORD slave]\<rparr>)"
  using assms
  by (subst modbus_fail_read_handler.simps) (simp add: read_holding_registers_def)

lemma handler_glitch:
  assumes "script c (length (calls c)) = NoRegisters e" "0 < WORD"
  shows "modbus_fail_read_handler c ADDR WORD slave =
           modbus_fail_read_handler
             (print (c\<lparr>calls := calls c @ [ReadHolding ADDR WORD slave]\<rparr>) e) ADDR WORD slave"
  using assms
  by (subst modbus_fail_read_handler.simps) (simp add: read_holding_registers_def)

lemma handler_retry:
  assumes "\<forall>k<N. \<exists>e. script c (length (calls c) + k) = NoRegisters e"
    and "script c (length (calls c) + N) = Registers regs"
    and "WORD \<le> length regs" and "0 < WORD"
  shows "\<exists>c'. modbus_fail_read_handler c ADDR WORD slave = Some (Inr (take WORD regs), c')
           \<and> calls c' = calls c @ replicate (Suc N) (ReadHolding ADDR WORD slave)
           \<and> script c' = script c"
  using assms
proof (induction N arbitrary: c)
  case 0
  from "0.prems"(2) have "script c (length (calls c)) = Registers regs" by simp
  from handler_good [OF this "0.prems"(3) "0.prems"(4)]
  have "modbus_fail_read_handler c ADDR WORD slave =
          Some (Inr (take WORD regs), c\<lparr>calls := calls c @ [ReadHolding ADDR WORD slave]\<rparr>)" .
  then show ?case by simp
next
  case (Suc N)
  have "0 < Suc N" by simp
  with Suc.prems(1) have "\<exists>e. script c (length (calls c) + 0) = NoRegisters e" by blast
  then obtain e where e: "script c (length (calls c)) = NoRegisters e" by auto
  define c1 where "c1 = print (c\<lparr>calls := calls c @ [ReadHolding ADDR WORD slave]\<rparr>) e"
  have len: "length (calls c1) = Suc (length (calls c))" and scr: "script c1 = script c"
    and cl: "calls c1 = calls c @ [ReadHolding ADDR WORD slave]"
    by (simp_all add: c1_def print_def)
  have p1: "\<forall>k<N. \<exists>e. script c1 (length (calls c1) + k) = NoRegisters e"
  proof (intro allI impI)
    fix k assume "k < N"
    then have "Suc k < Suc N" by simp
    with Suc.prems(1) have "\<exists>e'. script c (length (calls c) + Suc k) = NoRegisters e'"
      by blast
    then show "\<exists>e. script c1 (length (calls c1) + k) = NoRegisters e"
      by (simp add: len scr)
  qed
  have p2: "script c1 (length (calls c1) + N) = Registers regs"
    using Suc.prems(2) by (simp add: len scr)
  from Suc.IH [OF p1 p2 Suc.prems(3) Suc.prems(4)]
  obtain c' where c': "modbus_fail_read_handler c1 ADDR WORD slave = Some (Inr (take WORD regs), c')"
    "calls c' = calls c1 @ replicate (Suc N) (ReadHolding ADDR WORD slave)"
    "script c' = script c1"
    by blast
  have "modbus_fail_read_handler c ADDR WORD slave = modbus_fail_read_handler c1 ADDR WORD slave"
    unfolding c1_def by (rule handler_glitch [OF e Suc.prems(4)])
  with c'(1) have r: "modbus_fail_read_handler c ADDR WORD slave = Some (Inr (take WORD regs), c')"
    by (rule_tac trans)
  have cs: "calls c' = calls c @ replicate (Suc (Suc N)) (ReadHolding ADDR WORD slave)"
    unfolding c'(2) cl by simp
  have "script c' = script c" unfolding c'(3) scr ..
  with r cs show ?case by blast
qed

text \<open>
  C6. When the client answers the first \<open>N\<close> reads of the handler with a reply that has
  no registers and the next one with a reply that carries \<open>WORD\<close> words (\<open>WORD\<close> at
  least one, as in every call of the driver), the handler returns, its result is exactly
  those words, and it has issued exactly \<open>N + 1\<close> reads of \<open>WORD\<close> registers at
  \<open>ADDR\<close>.
\<close>

theorem read_with_retry_returns:
  assumes "\<forall>k<N. \<exists>e. script c (length (calls c) + k) = NoRegisters e"
    and "script c (length (calls c) + N) = Registers ws"
    and "length ws = WORD" and "0 < WORD"
  shows "\<exists>c'. modbus_fail_read_handler c ADDR WORD slave = Some (Inr ws, c')
           \<and> calls c' = calls c @ replicate (N + 1) (ReadHolding ADDR WORD slave)"
proof -
  from assms(3) have le: "WORD \<le> length ws" by simp
  from handler_retry [OF assms(1) assms(2) le assms(4), of ADDR slave] assms(3)
  show ?thesis by auto
qed

theorem read_with_retry_returns_witness:
  "\<exists>c'. modbus_fail_read_handler
          \<lparr>script = (\<lambda>k. if k < 2 then NoRegisters ''no registers'' else Registers [7, 8]),
           calls = [], stdout = []\<rparr> 0x20AB 2 1 = Some (Inr [7, 8], c')
        \<and> calls c' = [ReadHolding 0x20AB 2 1, ReadHolding 0x20AB 2 1, ReadHolding 0x20AB 2 1]"
  using read_with_retry_returns [of 2
      "\<lparr>script = (\<lambda>k. if k < 2 then NoRegisters ''no registers'' else Registers [7, 8]),
        calls = [], stdout = []\<rparr>" "[7, 8]" 2 "0x20AB" 1]
  by (simp add: numeral_2_eq_2 numeral_3_eq_3)

section \<open>Fault query\<close>

lemma set_FAULT_LIST:
  "set FAULT_LIST = {1, 2, 4, 8, 16, 32, 64, 128, 256, 512, 1024}"
  by (simp add: FAULT_LIST_def OVER_VOLT_def UNDER_VOLT_def OVER_CURR_def OVER_LOAD_def
      CURR_OUT_TOL_def ENCOD_OUT_TOL_def MOTOR_BAD_def REF_VOLT_ERROR_def EEPROM_ERROR_def
      WALL_ERROR_def HIGH_TEMP_def)

text \<open>
  C1. The fault flag of an axis is exact membership of its fault word in the eleven
  enumerated single-bit codes \<open>0x0001\<close> ... \<open>0x0400\<close>: when the read returns the
  two fault words, \<open>get_fault_code\<close> returns each word with the flag "the word is one of
  the eleven codes", after one read of two registers at \<open>0x20A5\<close>. The word \<open>0\<close> and
  a word that combines two fault bits (\<open>3\<close>) are therefore not faulted.
\<close>

theorem fault_flag_is_membership:
  assumes "script c (length (calls c)) = Registers (l # r # rest)"
  shows "get_fault_code ctl c =
           (Inr ((l \<in> {1, 2, 4, 8, 16, 32, 64, 128, 256, 512, 1024}, l),
                 (r \<in> {1, 2, 4, 8, 16, 32, 64, 128, 256, 512, 1024}, r)),
            c\<lparr>calls := calls c @ [ReadHolding 0x20A5 2 (ID ctl)]\<rparr>)"
  using assms
  by (simp add: get_fault_code_def read_holding_registers_def L_FAULT_def set_FAULT_LIST
      del: insert_iff)

theorem fault_flag_is_membership_witness:
  "get_fault_code \<lparr>ID = 1, R_Wheel = 0.0635\<rparr>
     \<lparr>script = (\<lambda>k. Registers [0, 3]), calls = [], stdout = []\<rparr> =
     (Inr ((False, 0), (False, 3)),
      \<lparr>script = (\<lambda>k. Registers [0, 3]), calls = [ReadHolding 0x20A5 2 1], stdout = []\<rparr>)
   \<and> get_fault_code \<lparr>ID = 1, R_Wheel = 0.0635\<rparr>
     \<lparr>script = (\<lambda>k. Registers [0x0001, 0x0400]), calls = [], stdout = []\<rparr> =
     (Inr ((True, 0x0001), (True, 0x0400)),
      \<lparr>script = (\<lambda>k. Registers [0x0001, 0x0400]), calls = [ReadHolding 0x20A5 2 1], stdout = []\<rparr>)"
  using fault_flag_is_membership [of "\<lparr>script = (\<lambda>k. Registers [0, 3]), calls = [], stdout = []\<rparr>"
      0 3 "[]" "\<lparr>ID = 1, R_Wheel = 0.0635\<rparr>"]
    fault_flag_is_membership [of "\<lparr>script = (\<lambda>k. Registers [0x0001, 0x0400]), calls = [], stdout = []\<rparr>"
      "0x0001" "0x0400" "[]" "\<lparr>ID = 1, R_Wheel = 0.0635\<rparr>"]
  by simp

text \<open>
  C10. The fault query reads once and does not retry: when the reply to its read has no
  registers, \<open>get_fault_code\<close> fails at once with the \<open>AttributeError\<close>, having
  issued the single read of two registers at \<open>0x20A5\<close>. On the same reply every other
  feedback read (\<open>get_mode\<close>, \<open>get_rpm\<close>, \<open>get_wheels_travelled\<close>,
  \<open>get_wheels_tick\<close>) prints the error and goes on as the same call on the client after
  that read, that is, it reads again.
\<close>

theorem fault_read_not_retried:
  assumes "script c (length (calls c)) = NoRegisters e"
  shows "get_fault_code ctl c =
           (Inl (AttributeError e), c\<lparr>calls := calls c @ [ReadHolding 0x20A5 2 (ID ctl)]\<rparr>)
       \<and> get_mode ctl c =
           get_mode ctl (print (c\<lparr>calls := calls c @ [ReadHolding 0x200D 1 (ID ctl)]\<rparr>) e)
       \<and> get_rpm ctl c =
           get_rpm ctl (print (c\<lparr>calls := calls c @ [ReadHolding 0x20AB 2 (ID ctl)]\<rparr>) e)
       \<and> get_wheels_travelled ctl c =
           get_wheels_travelled ctl (print (c\<lparr>calls := calls c @ [ReadHolding 0x20A7 4 (ID ctl)]\<rparr>) e)
       \<and> get_wheels_tick ctl c =
           get_wheels_tick ctl (print (c\<lparr>calls := calls c @ [ReadHolding 0x20A7 4 (ID ctl)]\<rparr>) e)"
proof -
  have f: "get_fault_code ctl c =
      (Inl (AttributeError e), c\<lparr>calls := calls c @ [ReadHolding 0x20A5 2 (ID ctl)]\<rparr>)"
    using assms by (simp add: get_fault_code_def read_holding_registers_def L_FAULT_def)
  have h: "modbus_fail_read_handler c ADDR WORD slave =
      modbus_fail_read_handler (print (c\<lparr>calls := calls c @ [ReadHolding ADDR WORD slave]\<rparr>) e)
        ADDR WORD slave" if "0 < WORD" for ADDR WORD slave
    using handler_glitch [OF assms that] .
  have m: "get_mode ctl c =
      get_mode ctl (print (c\<lparr>calls := calls c @ [ReadHolding 0x200D 1 (ID ctl)]\<rparr>) e)"
    unfolding get_mode_def OPR_MODE_def by (subst h) simp_all
  have r: "get_rpm ctl c =
      get_rpm ctl (print (c\<lparr>calls := calls c @ [ReadHolding 0x20AB 2 (ID ctl)]\<rparr>) e)"
    unfolding get_rpm_def L_FB_RPM_def by (subst h) simp_all
  have t: "get_wheels_travelled ctl c =
      get_wheels_travelled ctl (print (c\<lparr>calls := calls c @ [ReadHolding 0x20A7 4 (ID ctl)]\<rparr>) e)"
    unfolding get_wheels_travelled_def L_FB_POS_HI_def by (subst h) simp_all
  have k: "get_wheels_tick ctl c =
      get_wheels_tick ctl (print (c\<lparr>calls := calls c @ [ReadHolding 0x20A7 4 (ID ctl)]\<rparr>) e)"
    unfolding get_wheels_tick_def L_FB_POS_HI_def by (subst h) simp_all
  from f m r t k show ?thesis by (intro conjI)
qed

theorem fault_read_not_retried_witness:
  "get_fault_code \<lparr>ID = 1, R_Wheel = 0.0635\<rparr>
     \<lparr>script = (\<lambda>k. if k = 0 then NoRegisters ''no registers'' else Registers [0, 0]),
      calls = [], stdout = []\<rparr> =
     (Inl (AttributeError ''no registers''),
      \<lparr>script = (\<lambda>k. if k = 0 then NoRegisters ''no registers'' else Registers [0, 0]),
       calls = [ReadHolding 0x20A5 2 1], stdout = []\<rparr>)
   \<and> get_rpm \<lparr>ID = 1, R_Wheel = 0.0635\<rparr>
     \<lparr>script = (\<lambda>k. if k = 0 then NoRegisters ''no registers'' else Registers [0, 0]),
      calls = [], stdout = []\<rparr> =
     Some (Inr (0, 0),
      \<lparr>script = (\<lambda>k. if k = 0 then NoRegisters ''no registers'' else Registers [0, 0]),
       calls = [ReadHolding 0x20AB 2 1, ReadHolding 0x20AB 2 1], stdout = [''no registers'']\<rparr>)"
proof -
  let ?c = "\<lparr>script = (\<lambda>k. if k = 0 then NoRegisters ''no registers'' else Registers [0, 0]),
        calls = [], stdout = []\<rparr>"
  let ?ctl = "\<lparr>ID = 1, R_Wheel = 0.0635\<rparr>"
  have s: "script ?c (length (calls ?c)) = NoRegisters ''no registers''" by simp
  note t = fault_read_not_retried [OF s, of ?ctl]
  have "modbus_fail_read_handler
          (print (?c\<lparr>calls := calls ?c @ [ReadHolding 0x20AB 2 (ID ?ctl)]\<rparr>) ''no registers'')
          0x20AB 2 1 =
        Some (Inr [0, 0], \<lparr>script = script ?c,
          calls = [ReadHolding 0x20AB 2 1, ReadHolding 0x20AB 2 1], stdout = [''no registers'']\<rparr>)"
    by (subst handler_good [where regs = "[0, 0]"]) (simp_all add: print_def)
  then have "get_rpm ?ctl
          (print (?c\<lparr>calls := calls ?c @ [ReadHolding 0x20AB 2 (ID ?ctl)]\<rparr>) ''no registers'') =
        Some (Inr (0, 0), \<lparr>script = script ?c,
          calls = [ReadHolding 0x20AB 2 1, ReadHolding 0x20AB 2 1], stdout = [''no registers'']\<rparr>)"
    by (simp add: get_rpm_def L_FB_RPM_def np_int16_def)
  with t show ?thesis by simp
qed

section \<open>Operation mode\<close>

text \<open>
  C5. \<open>set_mode\<close> with a mode other than 1, 2 or 3 issues no call on the client: it
  prints the error line and returns \<open>0\<close>, the value by which it reports the invalid
  mode. With a mode of 1, 2 or 3 it issues exactly one write of that value to the mode
  register \<open>0x200D\<close> and returns the reply of the client.
\<close>

theorem set_mode_rejects_invalid:
  "(MODE \<notin> {1, 2, 3} \<longrightarrow>
      set_mode ctl c MODE =
        (Inl 0, c\<lparr>stdout := stdout c @ [''set_mode ERROR: set only 1, 2, or 3'']\<rparr>))
   \<and> (MODE \<in> {1, 2, 3} \<longrightarrow>
      fst (set_mode ctl c MODE) = Inr (script c (length (calls c)))
      \<and> calls (snd (set_mode ctl c MODE)) = calls c @ [WriteRegister 0x200D MODE (ID ctl)])"
  by (simp add: set_mode_def write_register_def print_def OPR_MODE_def)

theorem set_mode_rejects_invalid_witness:
  "set_mode \<lparr>ID = 1, R_Wheel = 0.0635\<rparr>
      \<lparr>script = (\<lambda>k. NoRegisters ''write reply''), calls = [], stdout = []\<rparr> 4 =
     (Inl 0, \<lparr>script = (\<lambda>k. NoRegisters ''write reply''), calls = [],
              stdout = [''set_mode ERROR: set only 1, 2, or 3'']\<rparr>)
   \<and> calls (snd (set_mode \<lparr>ID = 1, R_Wheel = 0.0635\<rparr>
      \<lparr>script = (\<lambda>k. NoRegisters ''write reply''), calls = [], stdout = []\<rparr> 3)) =
     [WriteRegister 0x200D 3 1]"
  using set_mode_rejects_invalid [of 4 "\<lparr>ID = 1, R_Wheel = 0.0635\<rparr>"
      "\<lparr>script = (\<lambda>k. NoRegisters ''write reply''), calls = [], stdout = []\<rparr>"]
    set_mode_rejects_invalid [of 3 "\<lparr>ID = 1, R_Wheel = 0.0635\<rparr>"
      "\<lparr>script = (\<lambda>k. NoRegisters ''write reply''), calls = [], stdout = []\<rparr>"]
  by simp

section \<open>Saturation of commands\<close>

lemma py_int_of_int: "py_int (of_int n) = n"
  by (simp add: py_int_def)

lemma py_int_bounds:
  assumes "of_int a \<le> x" "x \<le> of_int b"
  shows "a \<le> py_int x \<and> py_int x \<le> b"
proof (cases "x < 0")
  case True
  from assms(1) have "a \<le> \<lceil>x\<rceil>" by (simp add: le_ceiling_iff)
  moreover from assms(2) have "\<lceil>x\<rceil> \<le> b" by (simp add: ceiling_le_iff)
  ultimately show ?thesis using True by (simp add: py_int_def)
next
  case False
  from assms(1) have "a \<le> \<lfloor>x\<rfloor>" by (simp add: le_floor_iff)
  moreover from assms(2) have "\<lfloor>x\<rfloor> \<le> b" by (simp add: floor_le_iff)
  ultimately show ?thesis using False by (simp add: py_int_def)
qed

text \<open>
  C8. \<open>set_accel_time\<close> and \<open>set_decel_time\<close> never reject a value: each issues one
  write of two registers (at \<open>0x2080\<close> and \<open>0x2082\<close>), and the left and the right
  word are the input saturated to the inclusive range 0 to 32767: a negative input writes 0,
  an input above 32767 writes 32767, and an integer already in the range is written
  unchanged. So \<open>-5\<close> writes 0, 40000 writes 32767 and 100 writes 100.
\<close>

theorem accel_decel_time_saturate:
  "set_accel_time ctl c L_ms R_ms =
     (script c (length (calls c)),
      c\<lparr>calls := calls c @
         [WriteRegisters 0x2080
            [py_int (if L_ms < 0 then 0 else if 32767 < L_ms then 32767 else L_ms),
             py_int (if R_ms < 0 then 0 else if 32767 < R_ms then 32767 else R_ms)] (ID ctl)]\<rparr>)
   \<and> set_decel_time ctl c L_ms R_ms =
     (script c (length (calls c)),
      c\<lparr>calls := calls c @
         [WriteRegisters 0x2082
            [py_int (if L_ms < 0 then 0 else if 32767 < L_ms then 32767 else L_ms),
             py_int (if R_ms < 0 then 0 else if 32767 < R_ms then 32767 else R_ms)] (ID ctl)]\<rparr>)
   \<and> 0 \<le> py_int (if L_ms < 0 then 0 else if 32767 < L_ms then 32767 else L_ms)
   \<and> py_int (if L_ms < 0 then 0 else if 32767 < L_ms then 32767 else L_ms) \<le> 32767
   \<and> 0 \<le> py_int (if R_ms < 0 then 0 else if 32767 < R_ms then 32767 else R_ms)
   \<and> py_int (if R_ms < 0 then 0 else if 32767 < R_ms then 32767 else R_ms) \<le> 32767
   \<and> (\<forall>n. 0 \<le> n \<and> n \<le> 32767 \<longrightarrow>
         py_int (if real_of_int n < 0 then 0 else if 32767 < real_of_int n then 32767
                 else real_of_int n) = n)"
proof -
  have b: "0 \<le> py_int (if x < 0 then 0 else if 32767 < x then 32767 else x)
         \<and> py_int (if x < 0 then 0 else if 32767 < x then 32767 else x) \<le> 32767" for x :: real
    using py_int_bounds [of 0 "if x < 0 then 0 else if 32767 < x then 32767 else x" 32767]
    by simp
  have a: "set_accel_time ctl c L_ms R_ms =
     (script c (length (calls c)),
      c\<lparr>calls := calls c @
         [WriteRegisters 0x2080
            [py_int (if L_ms < 0 then 0 else if 32767 < L_ms then 32767 else L_ms),
             py_int (if R_ms < 0 then 0 else if 32767 < R_ms then 32767 else R_ms)] (ID ctl)]\<rparr>)"
    by (simp add: set_accel_time_def write_registers_def L_ACL_TIME_def)
  have d: "set_decel_time ctl c L_ms R_ms =
     (script c (length (calls c)),
      c\<lparr>calls := calls c @
         [WriteRegisters 0x2082
            [py_int (if L_ms < 0 then 0 else if 32767 < L_ms then 32767 else L_ms),
             py_int (if R_ms < 0 then 0 else if 32767 < R_ms then 32767 else R_ms)] (ID ctl)]\<rparr>)"
    by (simp add: set_decel_time_def write_registers_def L_DCL_TIME_def)
  have u: "\<forall>n. 0 \<le> n \<and> n \<le> 32767 \<longrightarrow>
         py_int (if real_of_int n < 0 then 0 else if 32767 < real_of_int n then 32767
                 else real_of_int n) = n"
    by (auto simp add: py_int_of_int)
  from a d b [of L_ms] b [of R_ms] u show ?thesis by blast
qed

theorem accel_decel_time_saturate_witness:
  "set_accel_time \<lparr>ID = 1, R_Wheel = 0.0635\<rparr>
      \<lparr>script = (\<lambda>k. NoRegisters ''write reply''), calls = [], stdout = []\<rparr> (- 5) 40000 =
     (NoRegisters ''write reply'',
      \<lparr>script = (\<lambda>k. NoRegisters ''write reply''),
       calls = [WriteRegisters 0x2080 [0, 32767] 1], stdout = []\<rparr>)
   \<and> set_decel_time \<lparr>ID = 1, R_Wheel = 0.0635\<rparr>
      \<lparr>script = (\<lambda>k. NoRegisters ''write reply''), calls = [], stdout = []\<rparr> 40000 100 =
     (NoRegisters ''write reply'',
      \<lparr>script = (\<lambda>k. NoRegisters ''write reply''),
       calls = [WriteRegisters 0x2082 [32767, 100] 1], stdout = []\<rparr>)"
  using accel_decel_time_saturate [of "\<lparr>ID = 1, R_Wheel = 0.0635\<rparr>"
      "\<lparr>script = (\<lambda>k. NoRegisters ''write reply''), calls = [], stdout = []\<rparr>" "- 5" 40000]
    accel_decel_time_saturate [of "\<lparr>ID = 1, R_Wheel = 0.0635\<rparr>"
      "\<lparr>script = (\<lambda>k. NoRegisters ''write reply''), calls = [], stdout = []\<rparr>" 40000 100]
  by (simp add: py_int_def)

text \<open>On Python integers \<open>0xFFFF & k\<close> is \<open>k\<close> modulo \<open>2\<^sup>1\<^sup>6\<close>, also for negative
  \<open>k\<close>.\<close>

lemma and_FFFF: "(0xFFFF :: int) AND k = k mod 65536"
proof -
  have "(0xFFFF :: int) = mask 16" by (simp add: mask_eq_exp_minus_1)
  then have "(0xFFFF :: int) AND k = take_bit 16 k"
    by (simp add: take_bit_eq_mask and.commute)
  then show ?thesis by (simp add: take_bit_eq_mod)
qed

lemma np_clip_if:
  "np_clip x (- 3000) 3000 = (if x < - 3000 then - 3000 else if 3000 < x then 3000 else x)"
  by (simp add: np_clip_def min_def max_def)

text \<open>
  C3. \<open>set_rpm\<close> issues exactly one write of two registers at \<open>0x2088\<close>; each word is
  the input clamped to the range -3000 to 3000, truncated to an integer and taken modulo
  \<open>2\<^sup>1\<^sup>6\<close> (its 16-bit two's complement). Every input above 3000 encodes to the word
  of 3000, every input below -3000 to the word of -3000, which is 62536; and
  \<open>set_rpm(500, -500)\<close> writes the pair 500, 65036.
\<close>

theorem set_rpm_clamps_and_wraps:
  "set_rpm ctl c L_rpm R_rpm =
     (script c (length (calls c)),
      c\<lparr>calls := calls c @
         [WriteRegisters 0x2088
            [py_int (if L_rpm < - 3000 then - 3000 else if 3000 < L_rpm then 3000 else L_rpm)
               mod 65536,
             py_int (if R_rpm < - 3000 then - 3000 else if 3000 < R_rpm then 3000 else R_rpm)
               mod 65536] (ID ctl)]\<rparr>)
   \<and> (\<forall>x. 3000 < x \<longrightarrow>
         to_int16 (np_clip x (- 3000) 3000) = to_int16 (np_clip 3000 (- 3000) 3000)
         \<and> to_int16 (np_clip x (- 3000) 3000) = 3000)
   \<and> (\<forall>x. x < - 3000 \<longrightarrow>
         to_int16 (np_clip x (- 3000) 3000) = to_int16 (np_clip (- 3000) (- 3000) 3000)
         \<and> to_int16 (np_clip x (- 3000) 3000) = 62536)"
proof -
  have w: "set_rpm ctl c L_rpm R_rpm =
     (script c (length (calls c)),
      c\<lparr>calls := calls c @
         [WriteRegisters 0x2088
            [py_int (if L_rpm < - 3000 then - 3000 else if 3000 < L_rpm then 3000 else L_rpm)
               mod 65536,
             py_int (if R_rpm < - 3000 then - 3000 else if 3000 < R_rpm then 3000 else R_rpm)
               mod 65536] (ID ctl)]\<rparr>)"
    unfolding set_rpm_def to_int16_def and_FFFF np_clip_if write_registers_def L_CMD_RPM_def
    by (simp add: Let_def)
  have hi: "to_int16 (np_clip x (- 3000) 3000) = 3000" if "3000 < x" for x
    using that unfolding to_int16_def and_FFFF np_clip_if by (simp add: py_int_def)
  have hi0: "to_int16 (np_clip 3000 (- 3000) 3000) = 3000"
    unfolding to_int16_def and_FFFF np_clip_if by (simp add: py_int_def)
  have lo: "to_int16 (np_clip x (- 3000) 3000) = 62536" if "x < - 3000" for x
    using that unfolding to_int16_def and_FFFF np_clip_if by (simp add: py_int_def)
  have lo0: "to_int16 (np_clip (- 3000) (- 3000) 3000) = 62536"
    unfolding to_int16_def and_FFFF np_clip_if by (simp add: py_int_def)
  from w hi hi0 lo lo0 show ?thesis by simp
qed

theorem set_rpm_clamps_and_wraps_witness:
  "set_rpm \<lparr>ID = 1, R_Wheel = 0.0635\<rparr>
      \<lparr>script = (\<lambda>k. NoRegisters ''write reply''), calls = [], stdout = []\<rparr> 500 (- 500) =
     (NoRegisters ''write reply'',
      \<lparr>script = (\<lambda>k. NoRegisters ''write reply''),
       calls = [WriteRegisters 0x2088 [500, 65036] 1], stdout = []\<rparr>)
   \<and> to_int16 (np_clip 4000 (- 3000) 3000) = 3000
   \<and> to_int16 (np_clip (- 4000) (- 3000) 3000) = 62536"
proof -
  note t = set_rpm_clamps_and_wraps [of "\<lparr>ID = 1, R_Wheel = 0.0635\<rparr>"
      "\<lparr>script = (\<lambda>k. NoRegisters ''write reply''), calls = [], stdout = []\<rparr>" 500 "- 500"]
  from t have w: "set_rpm \<lparr>ID = 1, R_Wheel = 0.0635\<rparr>
      \<lparr>script = (\<lambda>k. NoRegisters ''write reply''), calls = [], stdout = []\<rparr> 500 (- 500) =
     (NoRegisters ''write reply'',
      \<lparr>script = (\<lambda>k. NoRegisters ''write reply''),
       calls = [WriteRegisters 0x2088 [500, 65036] 1], stdout = []\<rparr>)"
    by (simp add: py_int_def)
  from t have "(3000 :: real) < 4000 \<longrightarrow> to_int16 (np_clip 4000 (- 3000) 3000) = 3000"
    by blast
  then have hi: "to_int16 (np_clip 4000 (- 3000) 3000) = 3000" by simp
  from t have "(- 4000 :: real) < - 3000 \<longrightarrow> to_int16 (np_clip (- 4000) (- 3000) 3000) = 62536"
    by blast
  then have lo: "to_int16 (np_clip (- 4000) (- 3000) 3000) = 62536" by simp
  from w hi lo show ?thesis by (intro conjI)
qed

section \<open>Split words and signed values\<close>

text \<open>The masks and shifts of the driver, as bit operations on unbounded integers.\<close>

lemma and_FFFF_right: "k AND (0xFFFF :: int) = take_bit 16 k"
proof -
  have "(0xFFFF :: int) = mask 16" by (simp add: mask_eq_exp_minus_1)
  then show ?thesis by (simp add: take_bit_eq_mask)
qed

lemma hi_word: "drop_bit 16 (k AND (0xFFFF0000 :: int)) = take_bit 16 (drop_bit 16 k)"
proof -
  have "drop_bit 16 (k AND (0xFFFF0000 :: int)) = drop_bit 16 k AND 0xFFFF"
    by simp
  then show ?thesis by (simp only: and_FFFF_right)
qed

lemma join_words:
  "push_bit 16 (take_bit 16 (drop_bit 16 k)) OR take_bit 16 k = take_bit 32 (k :: int)"
  by (rule bit_eqI) (auto simp add: bit_simps)

lemma pulse32_words:
  "pulse32 pul_hi pul_lo =
     signed_take_bit 31 (push_bit 16 (take_bit 16 pul_hi) OR take_bit 16 pul_lo)"
  by (simp add: pulse32_def np_int32_def and_FFFF_right)

lemma pulse32_split:
  assumes "- (2 ^ 31) \<le> k" "k < 2 ^ 31"
  shows "pulse32 (drop_bit 16 (k AND 0xFFFF0000)) (k AND 0x0000FFFF) = k"
proof -
  have "pulse32 (drop_bit 16 (k AND 0xFFFF0000)) (k AND 0x0000FFFF) =
          signed_take_bit 31 (take_bit 32 k)"
    by (simp add: pulse32_words hi_word and_FFFF_right join_words)
  also have "\<dots> = signed_take_bit 31 k"
    by (simp add: signed_take_bit_take_bit)
  also have "\<dots> = k"
    using assms by (simp add: signed_take_bit_int_eq_self)
  finally show ?thesis .
qed

text \<open>The wrapping cast on a value that fits the unsigned width.\<close>

lemma signed_take_bit_unsigned:
  assumes "0 \<le> x" "x < 2 * 2 ^ n"
  shows "signed_take_bit n (x :: int) = (if x < 2 ^ n then x else x - 2 * 2 ^ n)"
proof -
  have p: "signed_take_bit n x = (x + 2 ^ n) mod (2 * 2 ^ n) - 2 ^ n"
    by (simp add: signed_take_bit_eq_take_bit_shift take_bit_eq_mod)
  show ?thesis
  proof (cases "x < 2 ^ n")
    case True
    with assms have "0 \<le> x + 2 ^ n" "x + 2 ^ n < 2 * 2 ^ n"
      by simp_all
    then have "(x + 2 ^ n) mod (2 * 2 ^ n) = x + 2 ^ n"
      by (rule mod_pos_pos_trivial)
    with p True show ?thesis by simp
  next
    case False
    with assms have "0 \<le> x - 2 ^ n" "x - 2 ^ n < 2 * 2 ^ n"
      by simp_all
    then have m: "(x - 2 ^ n) mod (2 * 2 ^ n) = x - 2 ^ n"
      by (rule mod_pos_pos_trivial)
    have "x + 2 ^ n = (x - 2 ^ n) + 2 * 2 ^ n"
      by simp
    then have "(x + 2 ^ n) mod (2 * 2 ^ n) = ((x - 2 ^ n) + 2 * 2 ^ n) mod (2 * 2 ^ n)"
      by (rule arg_cong)
    also have "\<dots> = (x - 2 ^ n) mod (2 * 2 ^ n)"
      by (rule mod_add_self2)
    finally have "(x + 2 ^ n) mod (2 * 2 ^ n) = x - 2 ^ n"
      using m by (rule_tac trans)
    with p False show ?thesis by simp
  qed
qed

lemma np_int16_value:
  assumes "0 \<le> w" "w < 65536"
  shows "np_int16 w = (if w < 32768 then w else w - 65536)"
  using signed_take_bit_unsigned [of w 15] assms by (simp add: np_int16_def)

lemma pulse32_value:
  assumes "0 \<le> h" "h < 65536" "0 \<le> l" "l < 65536"
  shows "pulse32 h l = (if h < 32768 then h * 65536 + l else h * 65536 + l - 4294967296)"
proof -
  have th: "take_bit 16 h = h" and tl: "take_bit 16 l = l"
    using assms by (simp_all add: take_bit_int_eq_self)
  have "push_bit 16 h AND take_bit 16 l = 0"
    by (rule bit_eqI) (auto simp add: bit_simps)
  then have "push_bit 16 h + take_bit 16 l = push_bit 16 h OR take_bit 16 l"
    by (rule disjunctive_add_eq_or)
  then have j: "push_bit 16 h OR l = h * 65536 + l"
    by (simp add: tl push_bit_eq_mult)
  have e: "pulse32 h l = signed_take_bit 31 (h * 65536 + l)"
    unfolding pulse32_words th tl j ..
  from assms have "0 \<le> h * 65536 + l" "h * 65536 + l < 2 * 2 ^ 31"
    by simp_all
  from signed_take_bit_unsigned [OF this] e assms show ?thesis
    by auto
qed

section \<open>Feedback reads\<close>

lemma handler_regs:
  assumes "\<forall>k<N. \<exists>e. script c (length (calls c) + k) = NoRegisters e"
    and "script c (length (calls c) + N) = Registers ws"
    and "length ws = WORD" and "0 < WORD"
  shows "\<exists>c'. modbus_fail_read_handler c ADDR WORD slave = Some (Inr ws, c')
           \<and> calls c' = calls c @ replicate (N + 1) (ReadHolding ADDR WORD slave)"
proof -
  from assms(3) have le: "WORD \<le> length ws" by simp
  from handler_retry [OF assms(1) assms(2) le assms(4), of ADDR slave] assms(3)
  show ?thesis by auto
qed

text \<open>
  C7. \<open>get_wheels_travelled\<close> reads four registers at \<open>0x20A7\<close> in one transaction
  (left high, left low, right high, right low; it reads again only after a reply without
  registers), reassembles each axis into a signed 32-bit count and returns, for each axis,
  the count divided by 16384 and multiplied by \<open>2\<pi>\<close> times the wheel radius. The
  count of two 16-bit words is \<open>hi * 65536 + lo\<close>, less \<open>2\<^sup>3\<^sup>2\<close> when the high word has
  its top bit set. With registers 0, 1000, 0, 0xFFFF and radius 0.0635 the left value is
  \<open>(1000 / 16384) * 2\<pi> * 0.0635\<close> and the right one comes from the count 65535.
\<close>

theorem wheels_travelled_formula:
  assumes "\<forall>k<N. \<exists>e. script c (length (calls c) + k) = NoRegisters e"
    and "script c (length (calls c) + N) = Registers [l_hi, l_lo, r_hi, r_lo]"
  shows "(\<exists>c'. get_wheels_travelled ctl c =
             Some (Inr ((real_of_int (pulse32 l_hi l_lo) / 16384) * (2 * pi * R_Wheel ctl),
                        (real_of_int (pulse32 r_hi r_lo) / 16384) * (2 * pi * R_Wheel ctl)), c')
           \<and> calls c' = calls c @ replicate (N + 1) (ReadHolding 0x20A7 4 (ID ctl)))
       \<and> (\<forall>h l. 0 \<le> h \<and> h < 65536 \<and> 0 \<le> l \<and> l < 65536 \<longrightarrow>
             pulse32 h l = (if h < 32768 then h * 65536 + l else h * 65536 + l - 4294967296))"
proof -
  from handler_regs [OF assms, of 4 "0x20A7" "ID ctl"]
  obtain c' where h: "modbus_fail_read_handler c 0x20A7 4 (ID ctl) =
        Some (Inr [l_hi, l_lo, r_hi, r_lo], c')"
    and c: "calls c' = calls c @ replicate (N + 1) (ReadHolding 0x20A7 4 (ID ctl))"
    by auto
  have "get_wheels_travelled ctl c =
          Some (Inr ((real_of_int (pulse32 l_hi l_lo) / 16384) * (2 * pi * R_Wheel ctl),
                     (real_of_int (pulse32 r_hi r_lo) / 16384) * (2 * pi * R_Wheel ctl)), c')"
    by (simp add: get_wheels_travelled_def L_FB_POS_HI_def h cpr_def travel_in_one_rev_def)
  with c have "\<exists>c'. get_wheels_travelled ctl c =
             Some (Inr ((real_of_int (pulse32 l_hi l_lo) / 16384) * (2 * pi * R_Wheel ctl),
                        (real_of_int (pulse32 r_hi r_lo) / 16384) * (2 * pi * R_Wheel ctl)), c')
           \<and> calls c' = calls c @ replicate (N + 1) (ReadHolding 0x20A7 4 (ID ctl))"
    by blast
  moreover have "\<forall>h l. 0 \<le> h \<and> h < 65536 \<and> 0 \<le> l \<and> l < 65536 \<longrightarrow>
             pulse32 h l = (if h < 32768 then h * 65536 + l else h * 65536 + l - 4294967296)"
    using pulse32_value by blast
  ultimately show ?thesis by (rule conjI)
qed

theorem wheels_travelled_formula_witness:
  "\<exists>c'. get_wheels_travelled \<lparr>ID = 1, R_Wheel = 0.0635\<rparr>
          \<lparr>script = (\<lambda>k. Registers [0, 1000, 0, 0xFFFF]), calls = [], stdout = []\<rparr> =
        Some (Inr ((1000 / 16384) * (2 * pi * 0.0635), (65535 / 16384) * (2 * pi * 0.0635)), c')
      \<and> calls c' = [ReadHolding 0x20A7 4 1]"
proof -
  have p: "pulse32 0 1000 = 1000" "pulse32 0 0xFFFF = 65535"
    by (simp_all add: pulse32_def np_int32_def)
  from wheels_travelled_formula [of 0
      "\<lparr>script = (\<lambda>k. Registers [0, 1000, 0, 0xFFFF]), calls = [], stdout = []\<rparr>"
      0 1000 0 "0xFFFF" "\<lparr>ID = 1, R_Wheel = 0.0635\<rparr>"]
  show ?thesis by (simp add: p)
qed


text \<open>
  C9. \<open>get_rpm\<close> decodes each of the two feedback words at \<open>0x20AB\<close> as a signed
  16-bit value divided by 10, and \<open>get_linear_velocities\<close> returns
  \<open>rpm_to_linear\<close> of the left rpm and \<open>rpm_to_linear\<close> of the negated right rpm:
  the sign of the right wheel is inverted before the conversion, that of the left wheel is
  not.
\<close>

theorem linear_velocities_right_inverted:
  assumes "\<forall>k<N. \<exists>e. script c (length (calls c) + k) = NoRegisters e"
    and "script c (length (calls c) + N) = Registers [wl, wr]"
  shows "(\<exists>c'. get_rpm ctl c =
             Some (Inr (real_of_int (np_int16 wl) / 10, real_of_int (np_int16 wr) / 10), c')
           \<and> get_linear_velocities ctl c =
             Some (Inr (rpm_to_linear ctl (real_of_int (np_int16 wl) / 10),
                        rpm_to_linear ctl (- (real_of_int (np_int16 wr) / 10))), c')
           \<and> calls c' = calls c @ replicate (N + 1) (ReadHolding 0x20AB 2 (ID ctl)))
       \<and> (\<forall>w. 0 \<le> w \<and> w < 65536 \<longrightarrow>
             np_int16 w = (if w < 32768 then w else w - 65536))"
proof -
  from handler_regs [OF assms, of 2 "0x20AB" "ID ctl"]
  obtain c' where h: "modbus_fail_read_handler c 0x20AB 2 (ID ctl) = Some (Inr [wl, wr], c')"
    and c: "calls c' = calls c @ replicate (N + 1) (ReadHolding 0x20AB 2 (ID ctl))"
    by auto
  have r: "get_rpm ctl c =
      Some (Inr (real_of_int (np_int16 wl) / 10, real_of_int (np_int16 wr) / 10), c')"
    by (simp add: get_rpm_def L_FB_RPM_def h)
  have v: "get_linear_velocities ctl c =
      Some (Inr (rpm_to_linear ctl (real_of_int (np_int16 wl) / 10),
                 rpm_to_linear ctl (- (real_of_int (np_int16 wr) / 10))), c')"
    by (simp add: get_linear_velocities_def r)
  from r v c have "\<exists>c'. get_rpm ctl c =
             Some (Inr (real_of_int (np_int16 wl) / 10, real_of_int (np_int16 wr) / 10), c')
           \<and> get_linear_velocities ctl c =
             Some (Inr (rpm_to_linear ctl (real_of_int (np_int16 wl) / 10),
                        rpm_to_linear ctl (- (real_of_int (np_int16 wr) / 10))), c')
           \<and> calls c' = calls c @ replicate (N + 1) (ReadHolding 0x20AB 2 (ID ctl))"
    by blast
  moreover have "\<forall>w. 0 \<le> w \<and> w < 65536 \<longrightarrow>
             np_int16 w = (if w < 32768 then w else w - 65536)"
    using np_int16_value by blast
  ultimately show ?thesis by (rule conjI)
qed

theorem linear_velocities_right_inverted_witness:
  "\<exists>c'. get_rpm \<lparr>ID = 1, R_Wheel = 0.0635\<rparr>
          \<lparr>script = (\<lambda>k. Registers [500, 65036]), calls = [], stdout = []\<rparr> =
        Some (Inr (50, - 50), c')
      \<and> get_linear_velocities \<lparr>ID = 1, R_Wheel = 0.0635\<rparr>
          \<lparr>script = (\<lambda>k. Registers [500, 65036]), calls = [], stdout = []\<rparr> =
        Some (Inr (50 * 2 * pi / 60 * 0.0635, 50 * 2 * pi / 60 * 0.0635), c')
      \<and> calls c' = [ReadHolding 0x20AB 2 1]"
proof -
  have p: "np_int16 500 = 500" "np_int16 65036 = - 500"
    by (simp_all add: np_int16_def)
  from linear_velocities_right_inverted [of 0
      "\<lparr>script = (\<lambda>k. Registers [500, 65036]), calls = [], stdout = []\<rparr>"
      500 65036 "\<lparr>ID = 1, R_Wheel = 0.0635\<rparr>"]
  show ?thesis by (simp add: p rpm_to_linear_def)
qed

section \<open>Double precision: rounding\<close>

text \<open>Rounding to an integer with ties to even: it keeps integers, is monotone and odd.\<close>

lemma rne_of_int: "rne (of_int n) = n"
  by (simp add: rne_def)

lemma rne_range: "\<lfloor>y\<rfloor> \<le> rne y \<and> rne y \<le> \<lfloor>y\<rfloor> + 1"
  by (simp add: rne_def Let_def)

lemma rne_mono:
  assumes "x \<le> y"
  shows "rne x \<le> rne y"
proof (cases "\<lfloor>x\<rfloor> = \<lfloor>y\<rfloor>")
  case True
  with assms show ?thesis
    by (auto simp add: rne_def Let_def)
next
  case False
  with assms have "\<lfloor>x\<rfloor> < \<lfloor>y\<rfloor>"
    using floor_mono [of x y] by linarith
  with rne_range [of x] rne_range [of y] show ?thesis by linarith
qed

lemma rne_minus: "rne (- y) = - rne y"
proof (cases "y = of_int \<lfloor>y\<rfloor>")
  case True
  then obtain n where "y = of_int n" ..
  then have "- y = of_int (- n)" by simp
  then have "rne (- y) = - n" by (simp only: rne_of_int)
  with \<open>y = of_int n\<close> show ?thesis by (simp add: rne_of_int)
next
  case False
  then have lt: "of_int \<lfloor>y\<rfloor> < y"
    using of_int_floor_le [of y] by linarith
  have ub: "y < of_int \<lfloor>y\<rfloor> + 1" by linarith
  have fm: "\<lfloor>- y\<rfloor> = - \<lfloor>y\<rfloor> - 1"
  proof (rule floor_unique)
    have e: "(of_int (- \<lfloor>y\<rfloor> - 1) :: real) = - of_int \<lfloor>y\<rfloor> - 1" by simp
    from ub show "of_int (- \<lfloor>y\<rfloor> - 1) \<le> - y" unfolding e by linarith
    from lt show "- y < of_int (- \<lfloor>y\<rfloor> - 1) + 1" unfolding e by linarith
  qed
  show ?thesis
    unfolding rne_def Let_def fm using lt by auto
qed

lemma rne_ge: "of_int a \<le> y \<Longrightarrow> a \<le> rne y"
  using rne_mono [of "of_int a" y] by (simp add: rne_of_int)

lemma rne_le: "y \<le> of_int b \<Longrightarrow> rne y \<le> b"
  using rne_mono [of y "of_int b"] by (simp add: rne_of_int)


text \<open>
  \<open>round_double\<close> is odd and monotone. Within one binade monotonicity is that of
  \<open>rne\<close>; across binades a rounded value stays within the closed binade of its
  argument.
\<close>

lemma double_ulp_pos: "0 < double_ulp x"
  by (simp add: double_ulp_def)

lemma double_exponent_minus: "double_exponent (- x) = double_exponent x"
  by (simp add: double_exponent_def)

lemma double_ulp_minus: "double_ulp (- x) = double_ulp x"
  by (simp add: double_ulp_def double_exponent_minus)

lemma round_double_minus: "round_double (- x) = - round_double x"
  by (simp add: round_double_def double_ulp_minus rne_minus)

lemma double_exponent_upper:
  assumes "0 < x"
  shows "x < 2 powr (of_int (double_exponent x) + 1)"
proof -
  have "log 2 x < of_int \<lfloor>log 2 x\<rfloor> + 1" by linarith
  also have "\<dots> \<le> of_int (double_exponent x) + 1"
    using assms by (simp add: double_exponent_def)
  finally have "log 2 x < of_int (double_exponent x) + 1" .
  with assms show ?thesis by (simp add: log_less_iff)
qed

lemma double_exponent_lower:
  assumes "0 < x" "- 1022 < double_exponent x"
  shows "2 powr of_int (double_exponent x) \<le> x"
proof -
  from assms have "double_exponent x = \<lfloor>log 2 x\<rfloor>"
    by (simp add: double_exponent_def max_def split: if_splits)
  then have "of_int (double_exponent x) \<le> log 2 x" by simp
  with assms(1) show ?thesis by (simp add: le_log_iff)
qed

lemma double_exponent_mono:
  assumes "0 < x" "x \<le> y"
  shows "double_exponent x \<le> double_exponent y"
proof -
  from assms have "log 2 x \<le> log 2 y" by simp
  then have "\<lfloor>log 2 x\<rfloor> \<le> \<lfloor>log 2 y\<rfloor>" by (rule floor_mono)
  with assms show ?thesis by (simp add: double_exponent_def)
qed

lemma double_ulp_scale:
  "2 powr a * double_ulp x = 2 powr (a + of_int (double_exponent x) - 52)"
proof -
  have "2 powr a * double_ulp x = 2 powr (a + of_int (double_exponent x - 52))"
    unfolding double_ulp_def by (rule powr_add [symmetric])
  also have "a + of_int (double_exponent x - 52) = a + of_int (double_exponent x) - 52"
    by simp
  finally show ?thesis .
qed

lemma double_ulp_53: "2 ^ 53 * double_ulp x = 2 powr (of_int (double_exponent x) + 1)"
proof -
  have "(2::real) ^ 53 = 2 powr 53" by simp
  then have "2 ^ 53 * double_ulp x = 2 powr 53 * double_ulp x" by (rule arg_cong)
  also have "\<dots> = 2 powr (53 + of_int (double_exponent x) - 52)"
    by (rule double_ulp_scale)
  also have "53 + of_int (double_exponent x) - 52 = real_of_int (double_exponent x) + 1"
    by simp
  finally show ?thesis .
qed

lemma double_ulp_52: "2 ^ 52 * double_ulp x = 2 powr of_int (double_exponent x)"
proof -
  have "(2::real) ^ 52 = 2 powr 52" by simp
  then have "2 ^ 52 * double_ulp x = 2 powr 52 * double_ulp x" by (rule arg_cong)
  also have "\<dots> = 2 powr (52 + of_int (double_exponent x) - 52)"
    by (rule double_ulp_scale)
  also have "52 + of_int (double_exponent x) - 52 = real_of_int (double_exponent x)"
    by simp
  finally show ?thesis .
qed

lemma round_double_upper:
  assumes "0 < x"
  shows "round_double x \<le> 2 powr (of_int (double_exponent x) + 1)"
proof -
  have "x < 2 ^ 53 * double_ulp x"
    using double_exponent_upper [OF assms] by (simp only: double_ulp_53)
  then have "x / double_ulp x < 2 ^ 53"
    using double_ulp_pos [of x] by (simp add: pos_divide_less_eq)
  then have "x / double_ulp x \<le> of_int (2 ^ 53)" by simp
  then have "rne (x / double_ulp x) \<le> 2 ^ 53" by (rule rne_le)
  then have "real_of_int (rne (x / double_ulp x)) \<le> real_of_int (2 ^ 53)"
    by (simp only: of_int_le_iff)
  then have "of_int (rne (x / double_ulp x)) \<le> (2::real) ^ 53" by simp
  then have "of_int (rne (x / double_ulp x)) * double_ulp x \<le> 2 ^ 53 * double_ulp x"
    using double_ulp_pos [of x] by (simp only: mult_le_cancel_right_pos)
  then show ?thesis using assms by (simp only: double_ulp_53 round_double_def) simp
qed

lemma round_double_lower:
  assumes "0 < x" "- 1022 < double_exponent x"
  shows "2 powr of_int (double_exponent x) \<le> round_double x"
proof -
  have "2 ^ 52 * double_ulp x \<le> x"
    using double_exponent_lower [OF assms] by (simp only: double_ulp_52)
  then have "2 ^ 52 \<le> x / double_ulp x"
    using double_ulp_pos [of x] by (simp add: pos_le_divide_eq)
  then have "of_int (2 ^ 52) \<le> x / double_ulp x" by simp
  then have "2 ^ 52 \<le> rne (x / double_ulp x)" by (rule rne_ge)
  then have "real_of_int (2 ^ 52) \<le> real_of_int (rne (x / double_ulp x))"
    by (simp only: of_int_le_iff)
  then have "(2::real) ^ 52 \<le> of_int (rne (x / double_ulp x))" by simp
  then have "2 ^ 52 * double_ulp x \<le> of_int (rne (x / double_ulp x)) * double_ulp x"
    using double_ulp_pos [of x] by (simp only: mult_le_cancel_right_pos)
  then show ?thesis using assms by (simp only: double_ulp_52 round_double_def) simp
qed

lemma round_double_nonneg:
  assumes "0 \<le> x"
  shows "0 \<le> round_double x"
proof -
  from assms double_ulp_pos [of x] have "of_int 0 \<le> x / double_ulp x" by simp
  then have "0 \<le> rne (x / double_ulp x)" by (rule rne_ge)
  with double_ulp_pos [of x] show ?thesis by (simp add: round_double_def)
qed

lemma round_double_mono_pos:
  assumes "0 < x" "x \<le> y"
  shows "round_double x \<le> round_double y"
proof (cases "double_exponent x = double_exponent y")
  case True
  then have u: "double_ulp x = double_ulp y" by (simp add: double_ulp_def)
  from assms(2) double_ulp_pos [of y] have "x / double_ulp y \<le> y / double_ulp y"
    by (simp add: divide_right_mono)
  then have "rne (x / double_ulp y) \<le> rne (y / double_ulp y)" by (rule rne_mono)
  then have "real_of_int (rne (x / double_ulp y)) * double_ulp y
      \<le> real_of_int (rne (y / double_ulp y)) * double_ulp y"
    using double_ulp_pos [of y] by (simp only: mult_le_cancel_right_pos of_int_le_iff)
  with assms show ?thesis by (simp add: round_double_def u)
next
  case False
  with double_exponent_mono [OF assms] have lt: "double_exponent x < double_exponent y"
    by simp
  have "- 1022 \<le> double_exponent x" by (simp add: double_exponent_def)
  with lt have n: "- 1022 < double_exponent y" by simp
  from assms have y: "0 < y" by simp
  have "round_double x \<le> 2 powr (of_int (double_exponent x) + 1)"
    by (rule round_double_upper [OF assms(1)])
  also have "\<dots> \<le> 2 powr of_int (double_exponent y)"
  proof (rule powr_mono)
    from lt have "double_exponent x + 1 \<le> double_exponent y" by simp
    then have "real_of_int (double_exponent x + 1) \<le> real_of_int (double_exponent y)"
      by (simp only: of_int_le_iff)
    then show "real_of_int (double_exponent x) + 1 \<le> real_of_int (double_exponent y)"
      by simp
  qed simp
  also have "\<dots> \<le> round_double y" by (rule round_double_lower [OF y n])
  finally show ?thesis .
qed

lemma round_double_mono:
  assumes "x \<le> y"
  shows "round_double x \<le> round_double y"
proof -
  consider "0 < x" | "x \<le> 0" "0 \<le> y" | "y < 0" by linarith
  then show ?thesis
  proof cases
    case 1
    then show ?thesis using assms by (rule round_double_mono_pos)
  next
    case 2
    from 2(1) have "0 \<le> round_double (- x)" by (intro round_double_nonneg) simp
    then have "round_double x \<le> 0" by (simp add: round_double_minus)
    also from 2(2) have "0 \<le> round_double y" by (rule round_double_nonneg)
    finally show ?thesis .
  next
    case 3
    with assms have "0 < - y" "- y \<le> - x" by simp_all
    then have "round_double (- y) \<le> round_double (- x)" by (rule round_double_mono_pos)
    then show ?thesis by (simp add: round_double_minus)
  qed
qed


text \<open>
  A number \<open>m * 2\<^sup>j\<close> with \<open>\<bar>m\<bar> < 2\<^sup>5\<^sup>3\<close> and \<open>j \<ge> -1074\<close> is a double: rounding
  keeps it. In particular every integer of magnitude up to \<open>2\<^sup>5\<^sup>3\<close> is kept.
\<close>

lemma round_double_dyadic:
  assumes "\<bar>m\<bar> < 2 ^ 53" "- 1074 \<le> j"
  shows "round_double (of_int m * 2 powr of_int j) = of_int m * 2 powr of_int j"
proof (cases "m = 0")
  case True
  then show ?thesis by (simp add: round_double_def)
next
  case False
  define x where "x = real_of_int m * 2 powr of_int j"
  from False have xne: "x \<noteq> 0" by (simp add: x_def)
  from False have mpos: "0 < \<bar>real_of_int m\<bar>" by simp
  have ax: "\<bar>x\<bar> = \<bar>real_of_int m\<bar> * 2 powr of_int j"
    by (simp add: x_def abs_mult)
  have lg: "log 2 \<bar>x\<bar> = log 2 \<bar>real_of_int m\<bar> + of_int j"
    unfolding ax using mpos by (simp add: log_mult)
  have fl: "\<lfloor>log 2 \<bar>x\<bar>\<rfloor> = \<lfloor>log 2 \<bar>real_of_int m\<bar>\<rfloor> + j"
    unfolding lg by (rule floor_add_int [symmetric])
  from assms(1) have "real_of_int \<bar>m\<bar> < real_of_int (2 ^ 53)"
    by (simp only: of_int_less_iff)
  then have "\<bar>real_of_int m\<bar> < 2 powr 53" by simp
  with mpos have "log 2 \<bar>real_of_int m\<bar> < 53"
    by (simp add: log_less_iff)
  then have "\<lfloor>log 2 \<bar>real_of_int m\<bar>\<rfloor> < 53"
    by (simp add: floor_less_iff)
  then have a52: "\<lfloor>log 2 \<bar>real_of_int m\<bar>\<rfloor> \<le> 52" by simp
  define d where "d = j - double_exponent x + 52"
  have dn: "0 \<le> d"
    using a52 assms(2) by (simp add: d_def double_exponent_def fl max_def)
  have "x / double_ulp x = real_of_int m * (2 powr of_int j / 2 powr of_int (double_exponent x - 52))"
    by (simp add: x_def double_ulp_def)
  also have "2 powr of_int j / 2 powr real_of_int (double_exponent x - 52) =
      2 powr (of_int j - real_of_int (double_exponent x - 52))"
    by (rule powr_diff [symmetric])
  also have "of_int j - real_of_int (double_exponent x - 52) = real_of_int d"
    by (simp add: d_def)
  also have "2 powr real_of_int d = 2 ^ nat d"
    using dn by (simp add: powr_int)
  also have "real_of_int m * 2 ^ nat d = real_of_int (m * 2 ^ nat d)" by simp
  finally have q: "x / double_ulp x = real_of_int (m * 2 ^ nat d)" .
  have "round_double x = real_of_int (rne (x / double_ulp x)) * double_ulp x"
    using xne by (simp add: round_double_def)
  also have "\<dots> = real_of_int (m * 2 ^ nat d) * double_ulp x"
    by (simp only: q rne_of_int)
  also have "\<dots> = x / double_ulp x * double_ulp x"
    by (simp only: q)
  also have "\<dots> = x"
    using double_ulp_pos [of x] by simp
  finally show ?thesis by (simp only: x_def)
qed



lemma round_double_pow53: "round_double (2 ^ 53) = 2 ^ 53"
proof -
  have "\<bar>2 ^ 52 :: int\<bar> < 2 ^ 53" by simp
  from round_double_dyadic [OF this, of 1] show ?thesis by simp
qed

lemma round_double_of_int:
  assumes "\<bar>n\<bar> \<le> 2 ^ 53"
  shows "round_double (of_int n) = of_int n"
proof -
  from assms have "n = 2 ^ 53 \<or> n = - (2 ^ 53) \<or> \<bar>n\<bar> < 2 ^ 53"
    by (simp add: abs_if split: if_splits) linarith+
  then consider "n = 2 ^ 53" | "n = - (2 ^ 53)" | "\<bar>n\<bar> < 2 ^ 53"
    by blast
  then show ?thesis
  proof cases
    case 1
    with round_double_pow53 show ?thesis by simp
  next
    case 2
    with round_double_pow53 round_double_minus [of "2 ^ 53"] show ?thesis by simp
  next
    case 3
    from round_double_dyadic [OF this, of 0] show ?thesis by simp
  qed
qed

lemma round_double_numeral:
  "numeral k \<le> (9007199254740992 :: int) \<Longrightarrow> round_double (numeral k) = numeral k"
  using round_double_of_int [of "numeral k"] by simp

lemma round_double_neg_numeral:
  "numeral k \<le> (9007199254740992 :: int) \<Longrightarrow> round_double (- numeral k) = - numeral k"
  using round_double_of_int [of "- numeral k"] by simp

lemma round_double_0: "round_double 0 = 0"
  by (simp add: round_double_def)

lemma round_double_ge:
  assumes "of_int a \<le> x" "\<bar>a\<bar> \<le> 2 ^ 53"
  shows "of_int a \<le> round_double x"
  using round_double_mono [OF assms(1)] round_double_of_int [OF assms(2)] by simp

lemma round_double_le:
  assumes "x \<le> of_int b" "\<bar>b\<bar> \<le> 2 ^ 53"
  shows "round_double x \<le> of_int b"
  using round_double_mono [OF assms(1)] round_double_of_int [OF assms(2)] by simp


section \<open>Relative angle\<close>

lemma double_overflow_big: "2 ^ 53 < double_overflow"
  by (simp add: double_overflow_def)

lemma fround_fin:
  assumes "\<bar>x\<bar> \<le> 2 ^ 53"
  shows "fround x = Fin (round_double x)"
  using assms double_overflow_big by (simp add: fround_def abs_le_iff)

lemma round_double_abs_le:
  assumes "\<bar>x\<bar> \<le> of_int b" "b \<le> 2 ^ 53"
  shows "\<bar>round_double x\<bar> \<le> of_int b"
proof -
  from assms(1) have b0: "0 \<le> b" by linarith
  with assms(2) have bb: "\<bar>b\<bar> \<le> 2 ^ 53" "\<bar>- b\<bar> \<le> 2 ^ 53" by simp_all
  from assms(1) have "x \<le> of_int b" "of_int (- b) \<le> x" by simp_all
  then have "round_double x \<le> of_int b" "of_int (- b) \<le> round_double x"
    using bb by (simp_all only: round_double_le round_double_ge)
  then show ?thesis by simp
qed

lemma float_of_int_small:
  assumes "\<bar>n\<bar> \<le> 2 ^ 53"
  shows "float_of_int n = Inr (Fin (of_int n))"
proof -
  from assms have "\<bar>real_of_int n\<bar> \<le> 2 ^ 53"
    by (metis of_int_abs of_int_le_iff of_int_numeral of_int_power)
  then have "fround (of_int n) = Fin (round_double (of_int n))" by (rule fround_fin)
  with round_double_of_int [OF assms] show ?thesis by (simp add: float_of_int_def)
qed

text \<open>
  The value of \<open>map(deg, -1440, 1440, -65536, 65536)\<close> for an int and for a float of
  magnitude up to \<open>10\<^sup>9\<close>: no step overflows, an int is rounded twice (the true
  division and the addition), a float four times.
\<close>

lemma map_deg_int:
  assumes "\<bar>v\<bar> \<le> 10 ^ 9"
  shows "map_lin (PyInt v) (PyInt (- 1440)) (PyInt 1440) (PyInt (- 65536)) (PyInt 65536) =
      Inr (PyFloat (Fin (round_double
        (round_double (real_of_int ((v + 1440) * 131072) / 2880) + (- 65536)))))"
proof -
  define q where "q = real_of_int ((v + 1440) * 131072) / 2880"
  from assms have "\<bar>real_of_int v\<bar> \<le> 10 ^ 9"
    by (metis of_int_abs of_int_le_iff of_int_numeral of_int_power)
  then have qb: "\<bar>q\<bar> \<le> real_of_int (2 ^ 47)"
    by (simp add: q_def abs_le_iff)
  then have "\<bar>q\<bar> \<le> 2 ^ 53" by simp
  then have f1: "fround q = Fin (round_double q)" by (rule fround_fin)
  from round_double_abs_le [OF qb] have sb: "\<bar>round_double q\<bar> \<le> 2 ^ 47" by simp
  then have "\<bar>round_double q + (- 65536)\<bar> \<le> 2 ^ 53" by simp
  then have f2: "fround (round_double q + (- 65536)) = Fin (round_double (round_double q + (- 65536)))"
    by (rule fround_fin)
  have c: "float_of_int (- 65536) = Inr (Fin (- 65536))"
    using float_of_int_small [of "- 65536"] by simp
  have "map_lin (PyInt v) (PyInt (- 1440)) (PyInt 1440) (PyInt (- 65536)) (PyInt 65536) =
      Inr (PyFloat (Fin (round_double (round_double q + (- 65536)))))"
    using f1 f2 c by (simp add: map_lin_def q_def float_op_def)
  then show ?thesis by (simp only: q_def)
qed

lemma map_deg_float:
  assumes "\<bar>x\<bar> \<le> 10 ^ 9"
  shows "map_lin (PyFloat (Fin x)) (PyInt (- 1440)) (PyInt 1440) (PyInt (- 65536)) (PyInt 65536) =
      Inr (PyFloat (Fin (round_double
        (round_double (round_double (round_double (x + 1440) * 131072) / 2880) + (- 65536)))))"
proof -
  define s1 where "s1 = round_double (x + 1440)"
  define s2 where "s2 = round_double (s1 * 131072)"
  define s3 where "s3 = round_double (s2 / 2880)"
  from assms have a1: "\<bar>x + 1440\<bar> \<le> real_of_int (2 ^ 30)" by (simp add: abs_le_iff)
  then have "\<bar>x + 1440\<bar> \<le> 2 ^ 53" by simp
  then have f1: "fround (x + 1440) = Fin s1" unfolding s1_def by (rule fround_fin)
  from round_double_abs_le [OF a1] have b1: "\<bar>s1\<bar> \<le> 2 ^ 30" by (simp add: s1_def)
  then have a2: "\<bar>s1 * 131072\<bar> \<le> real_of_int (2 ^ 47)" by (simp add: abs_le_iff)
  then have "\<bar>s1 * 131072\<bar> \<le> 2 ^ 53" by simp
  then have f2: "fround (s1 * 131072) = Fin s2" unfolding s2_def by (rule fround_fin)
  from round_double_abs_le [OF a2] have b2: "\<bar>s2\<bar> \<le> 2 ^ 47" by (simp add: s2_def)
  then have a3: "\<bar>s2 / 2880\<bar> \<le> real_of_int (2 ^ 47)" by (simp add: abs_le_iff)
  then have "\<bar>s2 / 2880\<bar> \<le> 2 ^ 53" by simp
  then have f3: "fround (s2 / 2880) = Fin s3" unfolding s3_def by (rule fround_fin)
  from round_double_abs_le [OF a3] have b3: "\<bar>s3\<bar> \<le> 2 ^ 47" by (simp add: s3_def)
  then have "\<bar>s3 + (- 65536)\<bar> \<le> 2 ^ 53" by simp
  then have f4: "fround (s3 + (- 65536)) = Fin (round_double (s3 + (- 65536)))"
    by (rule fround_fin)
  have c: "float_of_int (- 1440) = Inr (Fin (- 1440))" "float_of_int 131072 = Inr (Fin 131072)"
    "float_of_int 2880 = Inr (Fin 2880)" "float_of_int (- 65536) = Inr (Fin (- 65536))"
    using float_of_int_small [of "- 1440"] float_of_int_small [of 131072]
      float_of_int_small [of 2880] float_of_int_small [of "- 65536"] by simp_all
  have "map_lin (PyFloat (Fin x)) (PyInt (- 1440)) (PyInt 1440) (PyInt (- 65536)) (PyInt 65536) =
      Inr (PyFloat (Fin (round_double (s3 + (- 65536)))))"
    using f1 f2 f3 f4 c by (simp add: map_lin_def float_op_def fsub_def)
  then show ?thesis by (simp only: s1_def s2_def s3_def)
qed


text \<open>
  At a degree of \<open>45 * k / 2048\<close> every step of the map is exact and the result is
  \<open>k\<close>; by monotonicity the result for any degree lies between its two neighbouring
  integers.
\<close>

lemma map_tail_ge:
  assumes "of_int (k + 65536) \<le> t" "\<bar>k\<bar> \<le> 2 ^ 40"
  shows "of_int k \<le> round_double (round_double t + (- 65536))"
proof -
  from assms(2) have b: "\<bar>k + 65536\<bar> \<le> 2 ^ 53" "\<bar>k\<bar> \<le> 2 ^ 53" by simp_all
  from round_double_ge [OF assms(1) b(1)] have "of_int k \<le> round_double t + (- 65536)"
    by simp
  then show ?thesis using b(2) by (rule round_double_ge)
qed

lemma map_tail_le:
  assumes "t \<le> of_int (k + 65536)" "\<bar>k\<bar> \<le> 2 ^ 40"
  shows "round_double (round_double t + (- 65536)) \<le> of_int k"
proof -
  from assms(2) have b: "\<bar>k + 65536\<bar> \<le> 2 ^ 53" "\<bar>k\<bar> \<le> 2 ^ 53" by simp_all
  from round_double_le [OF assms(1) b(1)] have "round_double t + (- 65536) \<le> of_int k"
    by simp
  then show ?thesis using b(2) by (rule round_double_le)
qed

lemma lattice_double:
  assumes "\<bar>k\<bar> \<le> 2 ^ 40"
  shows "round_double (real_of_int (45 * k + 2949120) / 2048) =
           real_of_int (45 * k + 2949120) / 2048"
proof -
  from assms have "\<bar>45 * k + 2949120\<bar> < 2 ^ 53" by simp
  from round_double_dyadic [OF this, of "- 11"] show ?thesis
    by (simp add: powr_minus_divide)
qed

lemma map_head_ge:
  assumes "of_int k \<le> x * 2048 / 45" "\<bar>k\<bar> \<le> 2 ^ 40"
  shows "of_int (k + 65536) \<le> round_double (round_double (x + 1440) * 131072) / 2880"
proof -
  from assms(1) have "real_of_int (45 * k + 2949120) / 2048 \<le> x + 1440"
    by (simp add: field_simps)
  from round_double_mono [OF this] have "real_of_int (45 * k + 2949120) / 2048
      \<le> round_double (x + 1440)"
    by (simp only: lattice_double [OF assms(2)])
  then have "real_of_int ((45 * k + 2949120) * 64) \<le> round_double (x + 1440) * 131072"
    by (simp add: field_simps)
  moreover from assms(2) have "\<bar>(45 * k + 2949120) * 64\<bar> \<le> 2 ^ 53" by simp
  ultimately have "real_of_int ((45 * k + 2949120) * 64)
      \<le> round_double (round_double (x + 1440) * 131072)"
    by (rule round_double_ge)
  then show ?thesis by (simp add: field_simps)
qed

lemma map_head_le:
  assumes "x * 2048 / 45 \<le> of_int k" "\<bar>k\<bar> \<le> 2 ^ 40"
  shows "round_double (round_double (x + 1440) * 131072) / 2880 \<le> of_int (k + 65536)"
proof -
  from assms(1) have "x + 1440 \<le> real_of_int (45 * k + 2949120) / 2048"
    by (simp add: field_simps)
  from round_double_mono [OF this] have "round_double (x + 1440)
      \<le> real_of_int (45 * k + 2949120) / 2048"
    by (simp only: lattice_double [OF assms(2)])
  then have "round_double (x + 1440) * 131072 \<le> real_of_int ((45 * k + 2949120) * 64)"
    by (simp add: field_simps)
  moreover from assms(2) have "\<bar>(45 * k + 2949120) * 64\<bar> \<le> 2 ^ 53" by simp
  ultimately have "round_double (round_double (x + 1440) * 131072)
      \<le> real_of_int ((45 * k + 2949120) * 64)"
    by (rule round_double_le)
  then show ?thesis by (simp add: field_simps)
qed

lemma map_deg_bounds:
  assumes "num_value deg = Some x" "\<bar>x\<bar> \<le> 10 ^ 9"
  shows "\<exists>s. map_lin deg (PyInt (- 1440)) (PyInt 1440) (PyInt (- 65536)) (PyInt 65536) =
             Inr (PyFloat (Fin s))
           \<and> (\<forall>k. \<bar>k\<bar> \<le> 2 ^ 40 \<longrightarrow>
                 (of_int k \<le> x * 2048 / 45 \<longrightarrow> of_int k \<le> s)
               \<and> (x * 2048 / 45 \<le> of_int k \<longrightarrow> s \<le> of_int k))"
proof (cases deg)
  case (PyInt v)
  with assms(1) have x: "x = of_int v" by simp
  with assms(2) have "\<bar>real_of_int v\<bar> \<le> real_of_int (10 ^ 9)" by simp
  then have "\<bar>v\<bar> \<le> 10 ^ 9" by (simp only: of_int_le_iff flip: of_int_abs)
  note m = map_deg_int [OF this]
  have "\<forall>k. \<bar>k\<bar> \<le> 2 ^ 40 \<longrightarrow>
         (of_int k \<le> x * 2048 / 45 \<longrightarrow>
            of_int k \<le> round_double
              (round_double (real_of_int ((v + 1440) * 131072) / 2880) + (- 65536)))
       \<and> (x * 2048 / 45 \<le> of_int k \<longrightarrow>
            round_double
              (round_double (real_of_int ((v + 1440) * 131072) / 2880) + (- 65536)) \<le> of_int k)"
  proof (intro allI impI conjI)
    fix k :: int assume k: "\<bar>k\<bar> \<le> 2 ^ 40" and "of_int k \<le> x * 2048 / 45"
    then have "of_int (k + 65536) \<le> real_of_int ((v + 1440) * 131072) / 2880"
      by (simp add: x field_simps)
    then show "of_int k \<le> round_double
        (round_double (real_of_int ((v + 1440) * 131072) / 2880) + (- 65536))"
      using k by (rule map_tail_ge)
  next
    fix k :: int assume k: "\<bar>k\<bar> \<le> 2 ^ 40" and "x * 2048 / 45 \<le> of_int k"
    then have "real_of_int ((v + 1440) * 131072) / 2880 \<le> of_int (k + 65536)"
      by (simp add: x field_simps)
    then show "round_double
        (round_double (real_of_int ((v + 1440) * 131072) / 2880) + (- 65536)) \<le> of_int k"
      using k by (rule map_tail_le)
  qed
  with m PyInt show ?thesis by blast
next
  case (PyFloat f)
  with assms(1) have f: "f = Fin x" by (cases f) simp_all
  note m = map_deg_float [OF assms(2)]
  have "\<forall>k. \<bar>k\<bar> \<le> 2 ^ 40 \<longrightarrow>
         (of_int k \<le> x * 2048 / 45 \<longrightarrow>
            of_int k \<le> round_double
              (round_double (round_double (round_double (x + 1440) * 131072) / 2880)
                 + (- 65536)))
       \<and> (x * 2048 / 45 \<le> of_int k \<longrightarrow>
            round_double
              (round_double (round_double (round_double (x + 1440) * 131072) / 2880)
                 + (- 65536)) \<le> of_int k)"
  proof (intro allI impI conjI)
    fix k :: int assume k: "\<bar>k\<bar> \<le> 2 ^ 40" and "of_int k \<le> x * 2048 / 45"
    then have "of_int (k + 65536) \<le> round_double (round_double (x + 1440) * 131072) / 2880"
      by (rule_tac map_head_ge)
    then show "of_int k \<le> round_double
        (round_double (round_double (round_double (x + 1440) * 131072) / 2880) + (- 65536))"
      using k by (rule map_tail_ge)
  next
    fix k :: int assume k: "\<bar>k\<bar> \<le> 2 ^ 40" and "x * 2048 / 45 \<le> of_int k"
    then have "round_double (round_double (x + 1440) * 131072) / 2880 \<le> of_int (k + 65536)"
      by (rule_tac map_head_le)
    then show "round_double
        (round_double (round_double (round_double (x + 1440) * 131072) / 2880) + (- 65536))
        \<le> of_int k"
      using k by (rule map_tail_le)
  qed
  with m PyFloat f show ?thesis by blast
qed


lemma deg_to_dec_bounds:
  assumes "num_value deg = Some x" "\<bar>x\<bar> \<le> 10 ^ 9"
  shows "\<exists>d. deg_to_dec deg = Inr d \<and> \<lfloor>x * 2048 / 45\<rfloor> \<le> d \<and> d \<le> \<lceil>x * 2048 / 45\<rceil>"
proof -
  from map_deg_bounds [OF assms] obtain s where
    m: "map_lin deg (PyInt (- 1440)) (PyInt 1440) (PyInt (- 65536)) (PyInt 65536) =
          Inr (PyFloat (Fin s))"
    and b: "\<And>k. \<bar>k\<bar> \<le> 2 ^ 40 \<Longrightarrow> of_int k \<le> x * 2048 / 45 \<Longrightarrow> of_int k \<le> s"
      "\<And>k. \<bar>k\<bar> \<le> 2 ^ 40 \<Longrightarrow> x * 2048 / 45 \<le> of_int k \<Longrightarrow> s \<le> of_int k"
    by blast
  define B :: int where "B = 2 ^ 40"
  from assms(2) have r: "real_of_int (- B) \<le> x * 2048 / 45" "x * 2048 / 45 \<le> real_of_int B"
    by (simp_all add: abs_le_iff B_def)
  then have "- B \<le> \<lfloor>x * 2048 / 45\<rfloor>" "\<lceil>x * 2048 / 45\<rceil> \<le> B"
    by (simp_all only: le_floor_iff ceiling_le_iff)
  moreover have "\<lfloor>x * 2048 / 45\<rfloor> \<le> \<lceil>x * 2048 / 45\<rceil>"
    by (rule floor_le_ceiling)
  ultimately have "\<bar>\<lfloor>x * 2048 / 45\<rfloor>\<bar> \<le> B" "\<bar>\<lceil>x * 2048 / 45\<rceil>\<bar> \<le> B"
    by linarith+
  then have k: "\<bar>\<lfloor>x * 2048 / 45\<rfloor>\<bar> \<le> 2 ^ 40" "\<bar>\<lceil>x * 2048 / 45\<rceil>\<bar> \<le> 2 ^ 40"
    by (simp_all only: B_def)
  have lo: "of_int \<lfloor>x * 2048 / 45\<rfloor> \<le> s"
    by (rule b(1) [OF k(1)]) (rule of_int_floor_le)
  have hi: "s \<le> of_int \<lceil>x * 2048 / 45\<rceil>"
    by (rule b(2) [OF k(2)]) (rule le_of_int_ceiling)
  from py_int_bounds [OF lo hi] m show ?thesis
    by (simp add: deg_to_dec_def)
qed

lemma deg_to_dec_multiple:
  assumes "num_value deg = Some (of_int (45 * j))" "\<bar>j\<bar> \<le> 10 ^ 7"
  shows "deg_to_dec deg = Inr (2048 * j)"
proof -
  from assms(2) have "\<bar>real_of_int (45 * j)\<bar> \<le> 10 ^ 9"
    by (simp add: abs_le_iff)
  from deg_to_dec_bounds [OF assms(1) this] obtain d where
    d: "deg_to_dec deg = Inr d" "\<lfloor>real_of_int (45 * j) * 2048 / 45\<rfloor> \<le> d"
      "d \<le> \<lceil>real_of_int (45 * j) * 2048 / 45\<rceil>"
    by blast
  have "real_of_int (45 * j) * 2048 / 45 = real_of_int (2048 * j)" by simp
  with d(2,3) have "d = 2048 * j" by (simp only: floor_of_int ceiling_of_int)
  with d(1) show ?thesis by simp
qed

lemma lo_word_mod: "k AND (0x0000FFFF :: int) = k mod 65536"
  by (simp add: and_FFFF_right take_bit_eq_mod)

lemma hi_word_mod: "drop_bit 16 (k AND (0xFFFF0000 :: int)) = (k div 65536) mod 65536"
  by (simp only: hi_word) (simp add: take_bit_eq_mod drop_bit_eq_div)

lemma words_of_dec:
  assumes "deg_to_dec deg = Inr d"
  shows "deg_to_32bitArray deg = Inr [(d div 65536) mod 65536, d mod 65536]"
  unfolding deg_to_32bitArray_def Let_def hi_word_mod lo_word_mod using assms by simp

lemma words_round_trip:
  assumes "deg_to_dec deg = Inr d" "- 65536 \<le> d" "d \<le> 65536"
  shows "\<exists>w. deg_to_32bitArray deg = Inr w \<and> length w = 2 \<and> pulse32 (w ! 0) (w ! 1) = d"
proof -
  from assms(2,3) have "- (2 ^ 31) \<le> d" "d < 2 ^ 31" by simp_all
  from pulse32_split [OF this] assms(1) show ?thesis
    by (simp add: deg_to_32bitArray_def Let_def)
qed

lemma deg_in_domain:
  assumes "num_value deg = Some x" "- 1440 \<le> x" "x \<le> 1440"
  shows "\<exists>d. deg_to_dec deg = Inr d \<and> - 65536 \<le> d \<and> d \<le> 65536"
proof -
  from assms(2,3) have "\<bar>x\<bar> \<le> 10 ^ 9" by simp
  from deg_to_dec_bounds [OF assms(1) this] obtain d where
    d: "deg_to_dec deg = Inr d" "\<lfloor>x * 2048 / 45\<rfloor> \<le> d" "d \<le> \<lceil>x * 2048 / 45\<rceil>"
    by blast
  from assms(2,3) have "real_of_int (- 65536) \<le> x * 2048 / 45"
    "x * 2048 / 45 \<le> real_of_int 65536"
    by simp_all
  then have "- 65536 \<le> \<lfloor>x * 2048 / 45\<rfloor>" "\<lceil>x * 2048 / 45\<rceil> \<le> 65536"
    by (simp_all only: le_floor_iff ceiling_le_iff)
  with d(2,3) have "- 65536 \<le> d" "d \<le> 65536" by linarith+
  with d(1) show ?thesis by blast
qed


text \<open>
  C4. For every angle between -1440 and 1440 degrees (a Python int or float) the integer
  that \<open>deg_to_32bitArray\<close> derives its words from (the linear map onto
  -65536 ... 65536 in double precision, truncated) lies between -65536 and 65536, and is
  recovered exactly by reassembling the high and the low word and reading the result as a
  signed 32-bit value; so \<open>get_wheels_tick\<close>, when the registers hold the words of two
  such angles, returns exactly their two integers.
\<close>

theorem split_words_round_trip:
  assumes "num_value deg_L = Some x_L" "- 1440 \<le> x_L" "x_L \<le> 1440"
    and "num_value deg_R = Some x_R" "- 1440 \<le> x_R" "x_R \<le> 1440"
    and "\<forall>k<N. \<exists>e. script c (length (calls c) + k) = NoRegisters e"
  shows "\<exists>d_L d_R w_L w_R.
           deg_to_dec deg_L = Inr d_L \<and> deg_to_32bitArray deg_L = Inr w_L \<and> length w_L = 2
         \<and> pulse32 (w_L ! 0) (w_L ! 1) = d_L \<and> - 65536 \<le> d_L \<and> d_L \<le> 65536
         \<and> deg_to_dec deg_R = Inr d_R \<and> deg_to_32bitArray deg_R = Inr w_R \<and> length w_R = 2
         \<and> pulse32 (w_R ! 0) (w_R ! 1) = d_R \<and> - 65536 \<le> d_R \<and> d_R \<le> 65536
         \<and> (script c (length (calls c) + N) = Registers (w_L @ w_R) \<longrightarrow>
              (\<exists>c'. get_wheels_tick ctl c = Some (Inr (d_L, d_R), c')))"
proof -
  from deg_in_domain [OF assms(1-3)] obtain d_L where
    dl: "deg_to_dec deg_L = Inr d_L" "- 65536 \<le> d_L" "d_L \<le> 65536" by blast
  from deg_in_domain [OF assms(4-6)] obtain d_R where
    dr: "deg_to_dec deg_R = Inr d_R" "- 65536 \<le> d_R" "d_R \<le> 65536" by blast
  from words_round_trip [OF dl] obtain w_L where
    wl: "deg_to_32bitArray deg_L = Inr w_L" "length w_L = 2" "pulse32 (w_L ! 0) (w_L ! 1) = d_L"
    by blast
  from words_round_trip [OF dr] obtain w_R where
    wr: "deg_to_32bitArray deg_R = Inr w_R" "length w_R = 2" "pulse32 (w_R ! 0) (w_R ! 1) = d_R"
    by blast
  from wl(2) obtain a b where ab: "w_L = [a, b]"
    by (cases w_L; cases "tl w_L"; cases "tl (tl w_L)") auto
  from wr(2) obtain x y where xy: "w_R = [x, y]"
    by (cases w_R; cases "tl w_R"; cases "tl (tl w_R)") auto
  have tick: "\<exists>c'. get_wheels_tick ctl c = Some (Inr (d_L, d_R), c')"
    if r: "script c (length (calls c) + N) = Registers (w_L @ w_R)"
  proof -
    from r have r4: "script c (length (calls c) + N) = Registers [a, b, x, y]"
      by (simp add: ab xy)
    from handler_regs [OF assms(7) r4, of 4 "0x20A7" "ID ctl"]
    obtain c' where h: "modbus_fail_read_handler c 0x20A7 4 (ID ctl) = Some (Inr [a, b, x, y], c')"
      by auto
    from wl(3) wr(3) have "pulse32 a b = d_L" "pulse32 x y = d_R" by (simp_all add: ab xy)
    then have "get_wheels_tick ctl c = Some (Inr (d_L, d_R), c')"
      by (simp add: get_wheels_tick_def L_FB_POS_HI_def h)
    then show ?thesis ..
  qed
  from dl dr wl wr tick show ?thesis by blast
qed

theorem split_words_round_trip_witness:
  "deg_to_32bitArray (PyInt (- 360)) = Inr [0xFFFF, 0xC000]
   \<and> deg_to_32bitArray (PyFloat (Fin 360)) = Inr [0, 0x4000]
   \<and> pulse32 0xFFFF 0xC000 = - 16384
   \<and> (\<exists>c'. get_wheels_tick \<lparr>ID = 1, R_Wheel = 0.0635\<rparr>
          (stub_client (Registers [0xFFFF, 0xC000, 0, 0x4000])) = Some (Inr (- 16384, 16384), c'))"
proof -
  let ?c = "stub_client (Registers [0xFFFF, 0xC000, 0, 0x4000])"
  have dl: "deg_to_dec (PyInt (- 360)) = Inr (- 16384)"
    using deg_to_dec_multiple [of "PyInt (- 360)" "- 8"] by simp
  have dr: "deg_to_dec (PyFloat (Fin 360)) = Inr 16384"
    using deg_to_dec_multiple [of "PyFloat (Fin 360)" 8] by simp
  have wl: "deg_to_32bitArray (PyInt (- 360)) = Inr [0xFFFF, 0xC000]"
    using words_of_dec [OF dl] by simp
  have wr: "deg_to_32bitArray (PyFloat (Fin 360)) = Inr [0, 0x4000]"
    using words_of_dec [OF dr] by simp
  have g: "\<forall>k<0. \<exists>e. script ?c (length (calls ?c) + k) = NoRegisters e" by simp
  from split_words_round_trip [of "PyInt (- 360)" "- 360" "PyFloat (Fin 360)" 360 0 ?c
      "\<lparr>ID = 1, R_Wheel = 0.0635\<rparr>", OF _ _ _ _ _ _ g]
  obtain d_L d_R w_L w_R where
    t: "deg_to_dec (PyInt (- 360)) = Inr d_L" "deg_to_32bitArray (PyInt (- 360)) = Inr w_L"
      "pulse32 (w_L ! 0) (w_L ! 1) = d_L"
      "deg_to_dec (PyFloat (Fin 360)) = Inr d_R" "deg_to_32bitArray (PyFloat (Fin 360)) = Inr w_R"
      "script ?c (length (calls ?c) + 0) = Registers (w_L @ w_R) \<longrightarrow>
         (\<exists>c'. get_wheels_tick \<lparr>ID = 1, R_Wheel = 0.0635\<rparr> ?c = Some (Inr (d_L, d_R), c'))"
    by auto
  from t(1,2,4,5) dl dr wl wr have e: "d_L = - 16384" "d_R = 16384"
    "w_L = [0xFFFF, 0xC000]" "w_R = [0, 0x4000]"
    by simp_all
  from t(3) have p: "pulse32 0xFFFF 0xC000 = - 16384" by (simp add: e)
  have "script ?c (length (calls ?c) + 0) = Registers (w_L @ w_R)"
    by (simp add: e stub_client_def)
  with t(6) have "\<exists>c'. get_wheels_tick \<lparr>ID = 1, R_Wheel = 0.0635\<rparr> ?c =
      Some (Inr (- 16384, 16384), c')"
    by (simp only: e)
  with wl wr p show ?thesis by (intro conjI)
qed


text \<open>
  Beyond the range of a double the map does not return a number: a float degree of
  \<open>2\<^sup>1\<^sup>0\<^sup>1\<^sup>0\<close> or more overflows to infinity in the multiplication and \<open>int()\<close>
  raises \<open>OverflowError\<close>; an int degree of \<open>2\<^sup>1\<^sup>0\<^sup>3\<^sup>0\<close> or more raises it in the true
  division.
\<close>

lemma fround_overflow: "double_overflow \<le> x \<Longrightarrow> fround x = PosInf"
  by (simp add: fround_def)

lemma double_overflow_le: "double_overflow \<le> 2 ^ 1024"
  by (simp add: double_overflow_def)

lemma round_double_pow1010: "round_double (2 ^ 1010) = 2 ^ 1010"
proof -
  have "\<bar>1 :: int\<bar> < 2 ^ 53" by simp
  from round_double_dyadic [OF this, of 1010] show ?thesis by simp
qed

lemma deg_overflow_float:
  assumes "2 ^ 1010 \<le> x"
  shows "deg_to_dec (PyFloat (Fin x)) = Inl OverflowError"
proof -
  have c: "float_of_int (- 1440) = Inr (Fin (- 1440))" "float_of_int 131072 = Inr (Fin 131072)"
    "float_of_int 2880 = Inr (Fin 2880)" "float_of_int (- 65536) = Inr (Fin (- 65536))"
    using float_of_int_small [of "- 1440"] float_of_int_small [of 131072]
      float_of_int_small [of 2880] float_of_int_small [of "- 65536"] by simp_all
  have m: "fmul (fround (x + 1440)) (Fin 131072) = PosInf"
  proof (cases "double_overflow \<le> x + 1440")
    case True
    then show ?thesis by (simp add: fround_overflow inf_times_def)
  next
    case False
    from assms have "0 < x + 1440" by (simp add: add_pos_nonneg)
    moreover have "0 < double_overflow" using double_overflow_big by simp
    ultimately have "\<not> x + 1440 \<le> - double_overflow" by linarith
    with False have f: "fround (x + 1440) = Fin (round_double (x + 1440))"
      by (simp add: fround_def)
    from assms have "(2::real) ^ 1010 \<le> x + 1440" by simp
    from round_double_mono [OF this] have "2 ^ 1010 \<le> round_double (x + 1440)"
      by (simp only: round_double_pow1010)
    then have "2 ^ 1010 * 131072 \<le> round_double (x + 1440) * 131072" by simp
    moreover have "(2::real) ^ 1024 \<le> 2 ^ 1010 * 131072" by simp
    ultimately have "double_overflow \<le> round_double (x + 1440) * 131072"
      using double_overflow_le by linarith
    then show ?thesis by (simp add: f fround_overflow)
  qed
  have "map_lin (PyFloat (Fin x)) (PyInt (- 1440)) (PyInt 1440) (PyInt (- 65536)) (PyInt 65536) =
      Inr (PyFloat PosInf)"
    using m c by (simp add: map_lin_def float_op_def fsub_def)
  then show ?thesis by (simp add: deg_to_dec_def)
qed

lemma deg_overflow_int:
  assumes "2 ^ 1030 \<le> v"
  shows "deg_to_dec (PyInt v) = Inl OverflowError"
proof -
  from assms have "real_of_int (2 ^ 1030) \<le> real_of_int v" by (simp only: of_int_le_iff)
  then have "(2::real) ^ 1030 \<le> real_of_int v" by simp
  then have "(2::real) ^ 1024 \<le> real_of_int ((v + 1440) * 131072) / 2880" by simp
  with double_overflow_le have "double_overflow \<le> real_of_int ((v + 1440) * 131072) / 2880"
    by linarith
  then have "fround (real_of_int ((v + 1440) * 131072) / 2880) = PosInf"
    by (rule fround_overflow)
  then have "map_lin (PyInt v) (PyInt (- 1440)) (PyInt 1440) (PyInt (- 65536)) (PyInt 65536) =
      Inl OverflowError"
    by (simp add: map_lin_def)
  then show ?thesis by (simp add: deg_to_dec_def)
qed

text \<open>What \<open>set_relative_angle\<close> does once the two integers are known, and when the
  left one fails.\<close>

lemma set_relative_angle_words:
  assumes "deg_to_dec ang_L = Inr d_L" "deg_to_dec ang_R = Inr d_R"
  shows "set_relative_angle ctl c ang_L ang_R =
     (Inr (script c (length (calls c))),
      c\<lparr>calls := calls c @
         [WriteRegisters 0x208A
            [(d_L div 65536) mod 65536, d_L mod 65536,
             (d_R div 65536) mod 65536, d_R mod 65536] (ID ctl)]\<rparr>)"
  by (simp add: set_relative_angle_def words_of_dec [OF assms(1)] words_of_dec [OF assms(2)]
      write_registers_def L_CMD_REL_POS_HI_def)

lemma set_relative_angle_error:
  assumes "deg_to_dec ang_L = Inl e"
  shows "set_relative_angle ctl c ang_L ang_R = (Inl e, c)"
  using assms by (simp add: set_relative_angle_def deg_to_32bitArray_def)

text \<open>
  An angle beyond the domain is not clamped to the nearest bound: 2880 degrees is written
  as the words 2, 0 (the integer 131072), while the bound 1440 is written as 1, 0 (65536).
  Nor is every angle accepted: the float \<open>2\<^sup>1\<^sup>0\<^sup>1\<^sup>3\<close> raises \<open>OverflowError\<close> and
  nothing is written.
\<close>

theorem set_relative_angle_clamp_counterexample:
  "set_relative_angle \<lparr>ID = 1, R_Wheel = 0.0635\<rparr> (stub_client (NoRegisters ''reply''))
       (PyInt 2880) (PyInt 0)
     \<noteq> set_relative_angle \<lparr>ID = 1, R_Wheel = 0.0635\<rparr> (stub_client (NoRegisters ''reply''))
         (PyInt 1440) (PyInt 0)
   \<and> calls (snd (set_relative_angle \<lparr>ID = 1, R_Wheel = 0.0635\<rparr>
        (stub_client (NoRegisters ''reply'')) (PyInt 2880) (PyInt 0))) =
       [WriteRegisters 0x208A [2, 0, 0, 0] 1]
   \<and> calls (snd (set_relative_angle \<lparr>ID = 1, R_Wheel = 0.0635\<rparr>
        (stub_client (NoRegisters ''reply'')) (PyInt 1440) (PyInt 0))) =
       [WriteRegisters 0x208A [1, 0, 0, 0] 1]
   \<and> set_relative_angle \<lparr>ID = 1, R_Wheel = 0.0635\<rparr> (stub_client (NoRegisters ''reply''))
       (PyFloat (Fin (2 ^ 1013))) (PyInt 0) =
       (Inl OverflowError, stub_client (NoRegisters ''reply''))"
proof -
  have d: "deg_to_dec (PyInt 2880) = Inr 131072" "deg_to_dec (PyInt 1440) = Inr 65536"
    "deg_to_dec (PyInt 0) = Inr 0"
    using deg_to_dec_multiple [of "PyInt 2880" 64] deg_to_dec_multiple [of "PyInt 1440" 32]
      deg_to_dec_multiple [of "PyInt 0" 0]
    by simp_all
  have o: "deg_to_dec (PyFloat (Fin (2 ^ 1013))) = Inl OverflowError"
    by (rule deg_overflow_float) simp
  have a: "set_relative_angle \<lparr>ID = 1, R_Wheel = 0.0635\<rparr>
        (stub_client (NoRegisters ''reply'')) (PyInt 2880) (PyInt 0) =
      (Inr (NoRegisters ''reply''),
       \<lparr>script = (\<lambda>k. NoRegisters ''reply''),
        calls = [WriteRegisters 0x208A [2, 0, 0, 0] 1], stdout = []\<rparr>)"
    by (simp add: set_relative_angle_words [OF d(1) d(3)] stub_client_def)
  have b: "set_relative_angle \<lparr>ID = 1, R_Wheel = 0.0635\<rparr>
        (stub_client (NoRegisters ''reply'')) (PyInt 1440) (PyInt 0) =
      (Inr (NoRegisters ''reply''),
       \<lparr>script = (\<lambda>k. NoRegisters ''reply''),
        calls = [WriteRegisters 0x208A [1, 0, 0, 0] 1], stdout = []\<rparr>)"
    by (simp add: set_relative_angle_words [OF d(2) d(3)] stub_client_def)
  have e: "set_relative_angle \<lparr>ID = 1, R_Wheel = 0.0635\<rparr>
        (stub_client (NoRegisters ''reply'')) (PyFloat (Fin (2 ^ 1013))) (PyInt 0) =
      (Inl OverflowError, stub_client (NoRegisters ''reply''))"
    by (rule set_relative_angle_error [OF o])
  from a b have "set_relative_angle \<lparr>ID = 1, R_Wheel = 0.0635\<rparr>
        (stub_client (NoRegisters ''reply'')) (PyInt 2880) (PyInt 0)
      \<noteq> set_relative_angle \<lparr>ID = 1, R_Wheel = 0.0635\<rparr>
        (stub_client (NoRegisters ''reply'')) (PyInt 1440) (PyInt 0)"
    by simp
  moreover from a have "calls (snd (set_relative_angle \<lparr>ID = 1, R_Wheel = 0.0635\<rparr>
        (stub_client (NoRegisters ''reply'')) (PyInt 2880) (PyInt 0))) =
       [WriteRegisters 0x208A [2, 0, 0, 0] 1]"
    by simp
  moreover from b have "calls (snd (set_relative_angle \<lparr>ID = 1, R_Wheel = 0.0635\<rparr>
        (stub_client (NoRegisters ''reply'')) (PyInt 1440) (PyInt 0))) =
       [WriteRegisters 0x208A [1, 0, 0, 0] 1]"
    by simp
  ultimately show ?thesis using e by (intro conjI)
qed

text \<open>
  C2, amended. An angle outside -1440 ... 1440 is not clamped: \<open>set_relative_angle\<close>
  applies the same linear map to every angle. For Python ints or floats of magnitude up to
  \<open>10\<^sup>9\<close> degrees it raises no error and issues one write of four registers at
  \<open>0x208A\<close> holding, for each axis, the high and the low 16 bits (modulo
  \<open>2\<^sup>3\<^sup>2\<close>) of the integer \<open>int(map(deg, ...))\<close> computed in double precision; that
  integer is \<open>deg * 2048 / 45\<close> rounded down or up to an integer, so an angle of 1441
  degrees or more encodes an integer above 65536 and one of -1441 or less an integer below
  -65536. A float angle of \<open>2\<^sup>1\<^sup>0\<^sup>1\<^sup>0\<close> or more raises \<open>OverflowError\<close> before anything
  is written.
\<close>

theorem set_relative_angle_not_clamped:
  assumes "num_value ang_L = Some x_L" "\<bar>x_L\<bar> \<le> 10 ^ 9"
    and "num_value ang_R = Some x_R" "\<bar>x_R\<bar> \<le> 10 ^ 9"
  shows "(\<exists>d_L d_R.
            deg_to_dec ang_L = Inr d_L \<and> deg_to_dec ang_R = Inr d_R
          \<and> set_relative_angle ctl c ang_L ang_R =
              (Inr (script c (length (calls c))),
               c\<lparr>calls := calls c @
                  [WriteRegisters 0x208A
                     [(d_L div 65536) mod 65536, d_L mod 65536,
                      (d_R div 65536) mod 65536, d_R mod 65536] (ID ctl)]\<rparr>)
          \<and> \<lfloor>x_L * 2048 / 45\<rfloor> \<le> d_L \<and> d_L \<le> \<lceil>x_L * 2048 / 45\<rceil>
          \<and> \<lfloor>x_R * 2048 / 45\<rfloor> \<le> d_R \<and> d_R \<le> \<lceil>x_R * 2048 / 45\<rceil>
          \<and> (1441 \<le> x_L \<longrightarrow> 65536 < d_L) \<and> (x_L \<le> - 1441 \<longrightarrow> d_L < - 65536)
          \<and> (1441 \<le> x_R \<longrightarrow> 65536 < d_R) \<and> (x_R \<le> - 1441 \<longrightarrow> d_R < - 65536))
       \<and> (\<forall>x. 2 ^ 1010 \<le> x \<longrightarrow>
             set_relative_angle ctl c (PyFloat (Fin x)) ang_R = (Inl OverflowError, c))"
proof -
  from deg_to_dec_bounds [OF assms(1,2)] obtain d_L where
    dl: "deg_to_dec ang_L = Inr d_L" "\<lfloor>x_L * 2048 / 45\<rfloor> \<le> d_L" "d_L \<le> \<lceil>x_L * 2048 / 45\<rceil>"
    by blast
  from deg_to_dec_bounds [OF assms(3,4)] obtain d_R where
    dr: "deg_to_dec ang_R = Inr d_R" "\<lfloor>x_R * 2048 / 45\<rfloor> \<le> d_R" "d_R \<le> \<lceil>x_R * 2048 / 45\<rceil>"
    by blast
  have up: "65536 < d" if "1441 \<le> x" "\<lfloor>x * 2048 / 45\<rfloor> \<le> d" for x :: real and d
  proof -
    from that(1) have "real_of_int 65537 \<le> x * 2048 / 45" by simp
    then have "65537 \<le> \<lfloor>x * 2048 / 45\<rfloor>" by (simp only: le_floor_iff)
    with that(2) show ?thesis by linarith
  qed
  have down: "d < - 65536" if "x \<le> - 1441" "d \<le> \<lceil>x * 2048 / 45\<rceil>" for x :: real and d
  proof -
    from that(1) have "x * 2048 / 45 \<le> real_of_int (- 65537)" by simp
    then have "\<lceil>x * 2048 / 45\<rceil> \<le> - 65537" by (simp only: ceiling_le_iff)
    with that(2) show ?thesis by linarith
  qed
  note w = set_relative_angle_words [OF dl(1) dr(1), of ctl c]
  have "\<exists>d_L d_R.
            deg_to_dec ang_L = Inr d_L \<and> deg_to_dec ang_R = Inr d_R
          \<and> set_relative_angle ctl c ang_L ang_R =
              (Inr (script c (length (calls c))),
               c\<lparr>calls := calls c @
                  [WriteRegisters 0x208A
                     [(d_L div 65536) mod 65536, d_L mod 65536,
                      (d_R div 65536) mod 65536, d_R mod 65536] (ID ctl)]\<rparr>)
          \<and> \<lfloor>x_L * 2048 / 45\<rfloor> \<le> d_L \<and> d_L \<le> \<lceil>x_L * 2048 / 45\<rceil>
          \<and> \<lfloor>x_R * 2048 / 45\<rfloor> \<le> d_R \<and> d_R \<le> \<lceil>x_R * 2048 / 45\<rceil>
          \<and> (1441 \<le> x_L \<longrightarrow> 65536 < d_L) \<and> (x_L \<le> - 1441 \<longrightarrow> d_L < - 65536)
          \<and> (1441 \<le> x_R \<longrightarrow> 65536 < d_R) \<and> (x_R \<le> - 1441 \<longrightarrow> d_R < - 65536)"
    using dl dr w up [OF _ dl(2)] down [OF _ dl(3)] up [OF _ dr(2)] down [OF _ dr(3)]
    by blast
  moreover have "\<forall>x. 2 ^ 1010 \<le> x \<longrightarrow>
             set_relative_angle ctl c (PyFloat (Fin x)) ang_R = (Inl OverflowError, c)"
    using deg_overflow_float set_relative_angle_error by blast
  ultimately show ?thesis by (rule conjI)
qed

theorem set_relative_angle_not_clamped_witness:
  "set_relative_angle \<lparr>ID = 1, R_Wheel = 0.0635\<rparr> (stub_client (NoRegisters ''reply''))
      (PyInt (- 2880)) (PyFloat (Fin 1485)) =
     (Inr (NoRegisters ''reply''),
      \<lparr>script = (\<lambda>k. NoRegisters ''reply''),
       calls = [WriteRegisters 0x208A [65534, 0, 1, 2048] 1], stdout = []\<rparr>)
   \<and> deg_to_dec (PyInt (- 2880)) = Inr (- 131072)
   \<and> deg_to_dec (PyFloat (Fin 1485)) = Inr 67584"
proof -
  from set_relative_angle_not_clamped [of "PyInt (- 2880)" "- 2880" "PyFloat (Fin 1485)" 1485
      "\<lparr>ID = 1, R_Wheel = 0.0635\<rparr>" "stub_client (NoRegisters ''reply'')"]
  obtain d_L d_R where
    t: "deg_to_dec (PyInt (- 2880)) = Inr d_L" "deg_to_dec (PyFloat (Fin 1485)) = Inr d_R"
      "set_relative_angle \<lparr>ID = 1, R_Wheel = 0.0635\<rparr> (stub_client (NoRegisters ''reply''))
         (PyInt (- 2880)) (PyFloat (Fin 1485)) =
       (Inr (script (stub_client (NoRegisters ''reply''))
               (length (calls (stub_client (NoRegisters ''reply''))))),
        (stub_client (NoRegisters ''reply''))\<lparr>calls :=
           calls (stub_client (NoRegisters ''reply'')) @
           [WriteRegisters 0x208A
              [(d_L div 65536) mod 65536, d_L mod 65536,
               (d_R div 65536) mod 65536, d_R mod 65536]
              (ID \<lparr>ID = 1, R_Wheel = 0.0635\<rparr>)]\<rparr>)"
      "\<lfloor>(- 2880 :: real) * 2048 / 45\<rfloor> \<le> d_L" "d_L \<le> \<lceil>(- 2880 :: real) * 2048 / 45\<rceil>"
      "\<lfloor>(1485 :: real) * 2048 / 45\<rfloor> \<le> d_R" "d_R \<le> \<lceil>(1485 :: real) * 2048 / 45\<rceil>"
    by auto
  from t(4,5) have dl: "d_L = - 131072" by simp
  from t(6,7) have dr: "d_R = 67584" by simp
  from t(1,2,3) show ?thesis
    unfolding dl dr by (simp add: stub_client_def)
qed


text \<open>
  The rounding of double precision is visible in the result: at the double just below 1485
  degrees (\<open>1485 - 2\<^sup>-\<^sup>4\<^sup>2\<close>, printed 1484.9999999999998) the sum with 1440 is a tie
  that rounds to 2925, and the integer is 67584, where \<open>deg * 2048 / 45\<close> truncated is
  67583.
\<close>

lemma round_double_tie: "round_double (2925 - 1 / 2 ^ 42) = 2925"
proof -
  define x :: real where "x = 2925 - 1 / 2 ^ 42"
  have pos: "0 < x" by (simp add: x_def)
  have "2 powr 11 \<le> x \<and> x < 2 powr (11 + 1)"
    by (simp add: x_def)
  with pos have "\<lfloor>log 2 x\<rfloor> = 11"
    by (simp only: floor_log_eq_powr_iff [of x 2 11]) simp
  with pos have e: "double_exponent x = 11" by (simp add: double_exponent_def)
  have "double_ulp x = 2 powr (- 41)" by (simp add: double_ulp_def e)
  also have "\<dots> = 1 / 2 ^ 41" by (simp add: powr_minus_divide)
  finally have u: "double_ulp x = 1 / 2 ^ 41" .
  have q: "x / (1 / 2 ^ 41) = 6432143022489600 - 1 / 2" by (simp add: x_def)
  have r: "rne (6432143022489600 - 1 / 2) = 6432143022489600"
    by (simp add: rne_def Let_def)
  from pos have "round_double x = of_int (rne (x / double_ulp x)) * double_ulp x"
    by (simp add: round_double_def)
  also have "\<dots> = of_int 6432143022489600 * (1 / 2 ^ 41)"
    by (simp only: u q r)
  also have "\<dots> = 2925" by simp
  finally show ?thesis by (simp only: x_def)
qed

lemma deg_to_dec_tie: "deg_to_dec (PyFloat (Fin (1485 - 1 / 2 ^ 42))) = Inr 67584"
proof -
  have "\<bar>1485 - 1 / 2 ^ 42 :: real\<bar> \<le> 10 ^ 9" by simp
  note m = map_deg_float [OF this]
  have "(1485 - 1 / 2 ^ 42 :: real) + 1440 = 2925 - 1 / 2 ^ 42" by simp
  then have s1: "round_double (1485 - 1 / 2 ^ 42 + 1440) = 2925"
    by (simp only: round_double_tie)
  have s2: "round_double (2925 * 131072) = 383385600"
    by (simp add: round_double_numeral)
  have s3: "round_double (383385600 / 2880) = 133120"
    by (simp add: round_double_numeral)
  have s4: "round_double (133120 + (- 65536)) = 67584"
    by (simp add: round_double_numeral)
  from m have "map_lin (PyFloat (Fin (1485 - 1 / 2 ^ 42))) (PyInt (- 1440)) (PyInt 1440)
      (PyInt (- 65536)) (PyInt 65536) = Inr (PyFloat (Fin 67584))"
    by (simp only: s1 s2 s3 s4)
  then show ?thesis by (simp add: deg_to_dec_def py_int_def)
qed


end
